theory Spec2Isabelle
  imports Main "HOL-Library.Word" "HOL-Library.Sublist"
begin

section \<open>Strings of the source language\<close>

text \<open>
  A TypeScript string is a finite sequence of UTF-16 code units; \<open>s.length\<close> counts code
  units, and \<open>match\<close> (for a pattern without the \<open>u\<close> flag) and \<open>includes\<close> compare code
  units. A string is therefore a list of 16-bit words. String literals of the source are
  all ASCII; \<open>js\<close> turns an ASCII literal into the string of its code units.
\<close>

type_synonym code_unit = "16 word"
type_synonym jsstring = "code_unit list"

definition js :: "string \<Rightarrow> jsstring" where
  "js s = map of_char s"

text \<open>\<open>s.includes(p)\<close>: \<open>p\<close> occurs in \<open>s\<close> as a contiguous run of code units.\<close>

fun str_includes :: "jsstring \<Rightarrow> jsstring \<Rightarrow> bool" where
  "str_includes [] p = (p = [])"
| "str_includes (c # cs) p = (prefix p (c # cs) \<or> str_includes cs p)"

text \<open>\<open>xs.join(sep)\<close> for an array of strings.\<close>

fun join :: "jsstring \<Rightarrow> jsstring list \<Rightarrow> jsstring" where
  "join sep [] = []"
| "join sep [x] = x"
| "join sep (x # y # ys) = x @ sep @ join sep (y # ys)"

section \<open>YouTubeExtractor.extractPlaylistId\<close>

text \<open>The character class \<open>[a-zA-Z0-9_-]\<close> of both patterns.\<close>

definition is_id_char :: "code_unit \<Rightarrow> bool" where
  "is_id_char c \<longleftrightarrow>
     (0x61 \<le> c \<and> c \<le> 0x7A) \<or> (0x41 \<le> c \<and> c \<le> 0x5A) \<or> (0x30 \<le> c \<and> c \<le> 0x39)
     \<or> c = 0x5F \<or> c = 0x2D"

text \<open>
  Both patterns have the shape \<open>/<literal>([a-zA-Z0-9_-]+)/\<close>. \<open>match_here lit s\<close> is the
  attempt to match such a pattern at the very start of \<open>s\<close>: the literal must be a prefix,
  and the greedy group takes the longest run of class characters, which must not be empty.
  The result is the text of group 1.
\<close>

definition match_here :: "jsstring \<Rightarrow> jsstring \<Rightarrow> jsstring option" where
  "match_here lit s =
     (if prefix lit s
      then (let cap = takeWhile is_id_char (drop (length lit) s)
            in if cap = [] then None else Some cap)
      else None)"

text \<open>
  \<open>url.match(pattern)\<close> for a pattern without the \<open>g\<close> flag: the leftmost position
  at which the pattern matches decides; \<open>None\<close> is the \<open>null\<close> of no match.
\<close>

fun regex_match :: "jsstring \<Rightarrow> jsstring \<Rightarrow> jsstring option" where
  "regex_match lit [] = match_here lit []"
| "regex_match lit (c # cs) =
     (case match_here lit (c # cs) of
        Some cap \<Rightarrow> Some cap
      | None \<Rightarrow> regex_match lit cs)"

definition patterns :: "jsstring list" where
  "patterns = [js ''list='', js ''playlist?list='']"

text \<open>The \<open>for (const pattern of patterns)\<close> loop: the first pattern that matches returns.\<close>

fun first_match :: "jsstring list \<Rightarrow> jsstring \<Rightarrow> jsstring option" where
  "first_match [] url = None"
| "first_match (p # ps) url =
     (case regex_match p url of
        Some cap \<Rightarrow> Some cap
      | None \<Rightarrow> first_match ps url)"

definition direct_id :: "jsstring \<Rightarrow> jsstring option" where
  "direct_id url =
     (if length url > 10 \<and> \<not> str_includes url (js ''http'') then Some url else None)"

definition extractPlaylistId :: "jsstring \<Rightarrow> jsstring option" where
  "extractPlaylistId url =
     (case first_match patterns url of
        Some cap \<Rightarrow> Some cap
      | None \<Rightarrow> direct_id url)"

text \<open>
  The variant of the refinement claim: only the first pattern, \<open>/list=([a-zA-Z0-9_-]+)/\<close>,
  then the same fallback.
\<close>

definition extractPlaylistId_first_pattern :: "jsstring \<Rightarrow> jsstring option" where
  "extractPlaylistId_first_pattern url =
     (case regex_match (js ''list='') url of
        Some cap \<Rightarrow> Some cap
      | None \<Rightarrow> direct_id url)"

text \<open>
  What it means for a URL to carry a query parameter, in the words of the specification:
  the query component runs from the first \<open>?\<close> to the first \<open>#\<close> after it (or the end),
  and its parameters are the pieces between \<open>&\<close>, each of the form \<open>name=value\<close>.
\<close>

fun split_on :: "code_unit \<Rightarrow> jsstring \<Rightarrow> jsstring list" where
  "split_on sep [] = [[]]"
| "split_on sep (c # cs) =
     (if c = sep then [] # split_on sep cs
      else (case split_on sep cs of
              [] \<Rightarrow> [[c]]
            | w # ws \<Rightarrow> (c # w) # ws))"

definition query_component :: "jsstring \<Rightarrow> jsstring" where
  "query_component url =
     takeWhile (\<lambda>c. c \<noteq> 0x23) (drop 1 (dropWhile (\<lambda>c. c \<noteq> 0x3F) url))"

definition has_query_parameter :: "jsstring \<Rightarrow> jsstring \<Rightarrow> jsstring \<Rightarrow> bool" where
  "has_query_parameter url name val \<longleftrightarrow>
     (name @ js ''='' @ val) \<in> set (split_on 0x26 (query_component url))"

section \<open>YouTubeExtractor.getPlaylistVideos\<close>

text \<open>
  Truthiness of an optional string: \<open>undefined\<close> and the empty string are falsy.
  \<open>truthy v\<close> is the value when it is truthy; \<open>or_default v d\<close> is \<open>v || d\<close>.
\<close>

definition truthy :: "jsstring option \<Rightarrow> jsstring option" where
  "truthy v = (case v of None \<Rightarrow> None | Some s \<Rightarrow> if s = [] then None else Some s)"

definition or_default :: "jsstring option \<Rightarrow> jsstring \<Rightarrow> jsstring" where
  "or_default v d = (case truthy v of None \<Rightarrow> d | Some s \<Rightarrow> s)"

text \<open>The interface \<open>VideoItem\<close>.\<close>

record VideoItem =
  title :: jsstring
  url :: jsstring
  video_id :: jsstring
  published_at :: jsstring

text \<open>
  What the code reads of a response of \<open>playlistItems.list\<close>: every field it reads is
  optional in the API's types. The title of a snippet is \<open>snippet_title\<close> here, since
  \<open>title\<close> is the field of \<open>VideoItem\<close>.
\<close>

record resourceId =
  videoId :: "jsstring option"

record snippet =
  snippet_title :: "jsstring option"
  resourceId :: "resourceId option"
  publishedAt :: "jsstring option"

record playlistItem =
  snippet :: "snippet option"

record listResponse =
  items :: "playlistItem list option"
  nextPageToken :: "jsstring option"

record listRequest =
  part :: "jsstring list"
  playlistId :: jsstring
  maxResults :: nat
  pageToken :: "jsstring option"

text \<open>
  The remote service, as the fetch sees it: a request is answered by a response, or the
  awaited call throws an error \<open>e\<close>, of which the code reads \<open>e.message\<close> (\<open>Inl\<close>).
\<close>

type_synonym youtube_api = "listRequest \<Rightarrow> jsstring + listResponse"

text \<open>
  What a fetch does besides returning: the requests it sends, and the two lines it logs
  through \<open>AppLogger.info\<close>, the announcement of the playlist before the loop and the
  count of videos fetched so far inside it.
\<close>

datatype event =
    LogFetching jsstring
  | LogFetchedSoFar nat
  | ApiRequest "jsstring option"

text \<open>The \<open>for (const item of items)\<close> loop, pushing onto \<open>videos\<close>.\<close>

fun push_items :: "playlistItem list \<Rightarrow> VideoItem list \<Rightarrow> VideoItem list" where
  "push_items [] videos = videos"
| "push_items (item # rest) videos =
     (case snippet item of
        None \<Rightarrow> push_items rest videos
      | Some sn \<Rightarrow>
          (case truthy (case resourceId sn of None \<Rightarrow> None | Some r \<Rightarrow> videoId r) of
             Some vid \<Rightarrow>
               push_items rest
                 (videos @
                  [\<lparr>title = or_default (snippet_title sn) (js ''Unknown''),
                    url = js ''https://www.youtube.com/watch?v='' @ vid,
                    video_id = vid,
                    published_at = or_default (publishedAt sn) []\<rparr>])
           | None \<Rightarrow> push_items rest videos))"

definition list_request :: "jsstring \<Rightarrow> jsstring option \<Rightarrow> listRequest" where
  "list_request pid tok =
     \<lparr>part = [js ''snippet''], playlistId = pid, maxResults = 50, pageToken = tok\<rparr>"

text \<open>
  The \<open>do \<dots> while (nextPageToken)\<close> loop inside the \<open>try\<close>. One call is one iteration:
  request a page, push its items, read the continuation token, log the count when there
  is one, and go round again when there is one. A thrown error leaves through the
  \<open>catch\<close>, which throws the wrapped message and nothing else. The loop has no bound of
  its own, so the result is an option: \<open>None\<close> is a fetch that never returns.
\<close>

partial_function (option) fetch_loop ::
  "youtube_api \<Rightarrow> jsstring \<Rightarrow> jsstring option \<Rightarrow> VideoItem list \<Rightarrow> event list \<Rightarrow>
   ((jsstring + VideoItem list) \<times> event list) option" where
  "fetch_loop api pid nextTok videos trace =
     (case api (list_request pid nextTok) of
        Inl msg \<Rightarrow>
          Some (Inl (js ''YouTube API Error: '' @ msg), trace @ [ApiRequest nextTok])
      | Inr response \<Rightarrow>
          (let videos' = push_items (case items response of None \<Rightarrow> [] | Some its \<Rightarrow> its) videos;
               nextTok' = truthy (nextPageToken response);
               trace' = trace @ [ApiRequest nextTok] @
                  (if nextTok' \<noteq> None then [LogFetchedSoFar (length videos')] else [])
           in if nextTok' \<noteq> None
              then fetch_loop api pid nextTok' videos' trace'
              else Some (Inr videos', trace')))"

definition getPlaylistVideos ::
  "youtube_api \<Rightarrow> jsstring \<Rightarrow> ((jsstring + VideoItem list) \<times> event list) option" where
  "getPlaylistVideos api pid = fetch_loop api pid None [] [LogFetching pid]"

text \<open>
  The notions of the claims about a fetch. An item carries a resolvable video identifier
  when its snippet, the snippet's resource id and a non-empty video id are all there.
\<close>

definition resolvable_video_id :: "playlistItem \<Rightarrow> jsstring option" where
  "resolvable_video_id item =
     (case snippet item of
        None \<Rightarrow> None
      | Some sn \<Rightarrow>
          (case resourceId sn of
             None \<Rightarrow> None
           | Some r \<Rightarrow> (case videoId r of None \<Rightarrow> None | Some v \<Rightarrow> if v = [] then None else Some v)))"

definition page_items :: "listResponse \<Rightarrow> playlistItem list" where
  "page_items page = (case items page of None \<Rightarrow> [] | Some its \<Rightarrow> its)"

definition carries_token :: "listResponse \<Rightarrow> bool" where
  "carries_token page \<longleftrightarrow> nextPageToken page \<noteq> None \<and> nextPageToken page \<noteq> Some []"

text \<open>
  \<open>pages_served api pid tok pages tok'\<close>: asked for the playlist from page token \<open>tok\<close> on,
  the service answers with \<open>pages\<close>, one after the other, each carrying the continuation
  token that the next request supplies; \<open>tok'\<close> is the token the last of them carries
  (\<open>tok\<close> itself when there are no pages).
\<close>

fun pages_served ::
  "youtube_api \<Rightarrow> jsstring \<Rightarrow> jsstring option \<Rightarrow> listResponse list \<Rightarrow> jsstring option \<Rightarrow> bool" where
  "pages_served api pid tok [] tok' \<longleftrightarrow> tok' = tok"
| "pages_served api pid tok (page # pages) tok' \<longleftrightarrow>
     api (list_request pid tok) = Inr page \<and> carries_token page \<and>
     pages_served api pid (nextPageToken page) pages tok'"

text \<open>The counts that the progress lines of a trace report, and the requests it holds.\<close>

fun progress_observations :: "event list \<Rightarrow> nat list" where
  "progress_observations [] = []"
| "progress_observations (LogFetchedSoFar n # es) = n # progress_observations es"
| "progress_observations (e # es) = progress_observations es"

fun requests_sent :: "event list \<Rightarrow> jsstring option list" where
  "requests_sent [] = []"
| "requests_sent (ApiRequest tok # es) = tok # requests_sent es"
| "requests_sent (e # es) = requests_sent es"

text \<open>
  The events of serving \<open>pages\<close>, each with a continuation token, from page token \<open>tok\<close>
  on, when \<open>n\<close> records were there before: a request and a progress line per page.
\<close>

fun page_events :: "jsstring option \<Rightarrow> nat \<Rightarrow> listResponse list \<Rightarrow> event list" where
  "page_events tok n [] = []"
| "page_events tok n (page # pages) =
     ApiRequest tok #
     LogFetchedSoFar (n + length (filter (\<lambda>i. resolvable_video_id i \<noteq> None) (page_items page))) #
     page_events (nextPageToken page)
       (n + length (filter (\<lambda>i. resolvable_video_id i \<noteq> None) (page_items page))) pages"

text \<open>Sample services, on which the theorems below are tried.\<close>

definition listed_video :: "jsstring \<Rightarrow> jsstring \<Rightarrow> playlistItem" where
  "listed_video vid ttl =
     \<lparr>snippet = Some \<lparr>snippet_title = Some ttl,
                       resourceId = Some \<lparr>videoId = Some vid\<rparr>,
                       publishedAt = Some (js ''2024-01-01T00:00:00Z'')\<rparr>\<rparr>"

definition listed_record :: "jsstring \<Rightarrow> jsstring \<Rightarrow> VideoItem" where
  "listed_record vid ttl =
     \<lparr>title = ttl, url = js ''https://www.youtube.com/watch?v='' @ vid, video_id = vid,
      published_at = js ''2024-01-01T00:00:00Z''\<rparr>"

text \<open>Fifty videos and the token \<open>T1\<close>, then three videos and no token.\<close>

definition two_page_api :: youtube_api where
  "two_page_api req =
     (if pageToken req = None
      then Inr \<lparr>items = Some (replicate 50 (listed_video (js ''a1'') (js ''A''))),
                nextPageToken = Some (js ''T1'')\<rparr>
      else if pageToken req = Some (js ''T1'')
      then Inr \<lparr>items = Some (replicate 3 (listed_video (js ''b2'') (js ''B''))),
                nextPageToken = None\<rparr>
      else Inl (js ''invalid page token''))"

text \<open>
  A first page with a video, an item without snippet and an item whose video id is
  empty, then a last page with one video.
\<close>

definition gaps_page :: listResponse where
  "gaps_page =
     \<lparr>items = Some [listed_video (js ''a1'') (js ''A''),
                     \<lparr>snippet = None\<rparr>,
                     listed_video [] (js ''deleted'')],
      nextPageToken = Some (js ''T1'')\<rparr>"

definition gaps_final_page :: listResponse where
  "gaps_final_page =
     \<lparr>items = Some [listed_video (js ''b2'') (js ''B'')], nextPageToken = None\<rparr>"

definition gaps_api :: youtube_api where
  "gaps_api req =
     (if pageToken req = None then Inr gaps_page
      else if pageToken req = Some (js ''T1'') then Inr gaps_final_page
      else Inl (js ''invalid page token''))"

text \<open>A first page with a token, then a request that fails.\<close>

definition failing_api :: youtube_api where
  "failing_api req =
     (if pageToken req = None then Inr gaps_page else Inl (js ''quotaExceeded''))"

section \<open>JSON.stringify and JSON.parse\<close>

text \<open>
  The values \<open>JSON.stringify\<close> and \<open>JSON.parse\<close> are used on here: null, booleans, strings,
  arrays and objects, an object being its own properties in the order of their creation.
  Numbers are left out; no value of this program holds one.
\<close>

datatype json =
    JNull
  | JBool bool
  | JString jsstring
  | JArray "json list"
  | JObject "(jsstring \<times> json) list"

text \<open>
  \<open>QuoteJSONString\<close> of ECMAScript. A string is read code point by code point: a leading
  surrogate followed by a trailing one is one code point and is copied; any other code
  unit stands alone. The seven characters with a short escape get it; other control
  characters and lone surrogates become \<open>\\uXXXX\<close> with lower-case digits.
\<close>

definition is_lead :: "code_unit \<Rightarrow> bool" where
  "is_lead c \<longleftrightarrow> 0xD800 \<le> c \<and> c \<le> 0xDBFF"

definition is_trail :: "code_unit \<Rightarrow> bool" where
  "is_trail c \<longleftrightarrow> 0xDC00 \<le> c \<and> c \<le> 0xDFFF"

definition hex_digit :: "nat \<Rightarrow> code_unit" where
  "hex_digit n = (if n < 10 then 0x30 + of_nat n else 0x61 + of_nat (n - 10))"

definition unicode_escape :: "code_unit \<Rightarrow> jsstring" where
  "unicode_escape c =
     [0x5C, 0x75,
      hex_digit (unat c div 4096 mod 16), hex_digit (unat c div 256 mod 16),
      hex_digit (unat c div 16 mod 16), hex_digit (unat c mod 16)]"

definition quote_unit :: "code_unit \<Rightarrow> jsstring" where
  "quote_unit c =
     (if c = 0x08 then [0x5C, 0x62]
      else if c = 0x09 then [0x5C, 0x74]
      else if c = 0x0A then [0x5C, 0x6E]
      else if c = 0x0C then [0x5C, 0x66]
      else if c = 0x0D then [0x5C, 0x72]
      else if c = 0x22 then [0x5C, 0x22]
      else if c = 0x5C then [0x5C, 0x5C]
      else if c < 0x20 \<or> is_lead c \<or> is_trail c then unicode_escape c
      else [c])"

fun quote_units :: "jsstring \<Rightarrow> jsstring" where
  "quote_units [] = []"
| "quote_units [c] = quote_unit c"
| "quote_units (c # d # cs) =
     (if is_lead c \<and> is_trail d then c # d # quote_units cs
      else quote_unit c @ quote_units (d # cs))"

definition QuoteJSONString :: "jsstring \<Rightarrow> jsstring" where
  "QuoteJSONString s = [0x22] @ quote_units s @ [0x22]"

text \<open>
  \<open>SerializeJSONProperty\<close>, with \<open>SerializeJSONArray\<close> and \<open>SerializeJSONObject\<close> in it:
  \<open>gap\<close> is the indentation unit and \<open>indent\<close> the current indentation.
\<close>

fun SerializeJSONProperty :: "jsstring \<Rightarrow> jsstring \<Rightarrow> json \<Rightarrow> jsstring" where
  "SerializeJSONProperty gap indent JNull = js ''null''"
| "SerializeJSONProperty gap indent (JBool b) = (if b then js ''true'' else js ''false'')"
| "SerializeJSONProperty gap indent (JString s) = QuoteJSONString s"
| "SerializeJSONProperty gap indent (JArray vs) =
     (let partial = map (SerializeJSONProperty gap (indent @ gap)) vs in
      if partial = [] then js ''[]''
      else if gap = [] then js ''['' @ join (js '','') partial @ js '']''
      else js ''['' @ [0x0A] @ (indent @ gap) @ join (js '','' @ [0x0A] @ (indent @ gap)) partial
           @ [0x0A] @ indent @ js '']'')"
| "SerializeJSONProperty gap indent (JObject ms) =
     (let partial =
            map (\<lambda>(k, v). QuoteJSONString k @ js '':'' @ (if gap = [] then [] else js '' '')
                              @ SerializeJSONProperty gap (indent @ gap) v) ms in
      if partial = [] then js ''{}''
      else if gap = [] then js ''{'' @ join (js '','') partial @ js ''}''
      else js ''{'' @ [0x0A] @ (indent @ gap) @ join (js '','' @ [0x0A] @ (indent @ gap)) partial
           @ [0x0A] @ indent @ js ''}'')"

text \<open>
  A \<open>VideoItem\<close> as a value: the object literal of \<open>videos.push\<close> creates the four
  properties in this order.
\<close>

definition video_json :: "VideoItem \<Rightarrow> json" where
  "video_json v =
     JObject [(js ''title'', JString (title v)), (js ''url'', JString (url v)),
              (js ''video_id'', JString (video_id v)), (js ''published_at'', JString (published_at v))]"

text \<open>
  \<open>JSON.stringify(videos, null, 4)\<close>: the gap is four spaces.
\<close>

definition JSON_stringify :: "VideoItem list \<Rightarrow> jsstring" where
  "JSON_stringify videos = SerializeJSONProperty (replicate 4 0x20) [] (JArray (map video_json videos))"

text \<open>A property of an object in the indented output: \<open>"key": "value"\<close>.\<close>

definition member_text :: "jsstring \<Rightarrow> jsstring \<Rightarrow> jsstring" where
  "member_text k s = QuoteJSONString k @ 0x3A # 0x20 # QuoteJSONString s"

text \<open>
  \<open>JSON.parse\<close>, for texts without numbers. White space is space, tab, line feed and
  carriage return.
\<close>

definition is_ws :: "code_unit \<Rightarrow> bool" where
  "is_ws c \<longleftrightarrow> c = 0x20 \<or> c = 0x09 \<or> c = 0x0A \<or> c = 0x0D"

definition skip_ws :: "jsstring \<Rightarrow> jsstring" where
  "skip_ws s = dropWhile is_ws s"

text \<open>
  The characters of a string after its opening quote, up to the closing one: escapes are
  decoded, a control character is refused, every other code unit is taken as it is. The
  result is the string and the text after the closing quote.
\<close>

definition hex_value :: "code_unit \<Rightarrow> nat option" where
  "hex_value c =
     (if 0x30 \<le> c \<and> c \<le> 0x39 then Some (unat c - 0x30)
      else if 0x61 \<le> c \<and> c \<le> 0x66 then Some (unat c - 0x61 + 10)
      else if 0x41 \<le> c \<and> c \<le> 0x46 then Some (unat c - 0x41 + 10)
      else None)"

definition hex4 :: "code_unit \<Rightarrow> code_unit \<Rightarrow> code_unit \<Rightarrow> code_unit \<Rightarrow> code_unit option" where
  "hex4 h1 h2 h3 h4 =
     (case (hex_value h1, hex_value h2, hex_value h3, hex_value h4) of
        (Some a, Some b, Some c, Some d) \<Rightarrow> Some (of_nat (a * 4096 + b * 256 + c * 16 + d))
      | _ \<Rightarrow> None)"

definition simple_escape :: "code_unit \<Rightarrow> code_unit option" where
  "simple_escape e =
     (if e = 0x22 then Some 0x22
      else if e = 0x5C then Some 0x5C
      else if e = 0x2F then Some 0x2F
      else if e = 0x62 then Some 0x08
      else if e = 0x66 then Some 0x0C
      else if e = 0x6E then Some 0x0A
      else if e = 0x72 then Some 0x0D
      else if e = 0x74 then Some 0x09
      else None)"

definition cons_result :: "'a \<Rightarrow> ('a list \<times> jsstring) option \<Rightarrow> ('a list \<times> jsstring) option" where
  "cons_result x r = (case r of None \<Rightarrow> None | Some (xs, rest) \<Rightarrow> Some (x # xs, rest))"

fun parse_string_units :: "jsstring \<Rightarrow> (jsstring \<times> jsstring) option" where
  "parse_string_units [] = None"
| "parse_string_units (c # cs) =
     (if c = 0x22 then Some ([], cs)
      else if c = 0x5C then
        (case cs of
           [] \<Rightarrow> None
         | e # es \<Rightarrow>
             if e = 0x75 then
               (case es of
                  h1 # h2 # h3 # h4 # rest \<Rightarrow>
                    (case hex4 h1 h2 h3 h4 of
                       None \<Rightarrow> None
                     | Some u \<Rightarrow> cons_result u (parse_string_units rest))
                | _ \<Rightarrow> None)
             else
               (case simple_escape e of
                  None \<Rightarrow> None
                | Some u \<Rightarrow> cons_result u (parse_string_units es)))
      else if c < 0x20 then None
      else cons_result c (parse_string_units cs))"

text \<open>
  Creating an own property: a key that is there already keeps its place and takes the new
  value.
\<close>

fun define_property :: "(jsstring \<times> json) list \<Rightarrow> jsstring \<Rightarrow> json \<Rightarrow> (jsstring \<times> json) list" where
  "define_property [] k v = [(k, v)]"
| "define_property ((k', v') # ms) k v =
     (if k' = k then (k', v) # ms else (k', v') # define_property ms k v)"

text \<open>
  The grammar of values, elements and members, by recursive descent; each function gives
  what it read and the text after it, \<open>None\<close> for a text that is not JSON. A number is
  refused too, which is where this falls short of \<open>JSON.parse\<close>. The descent takes a
  bound on the calls still allowed; \<open>JSON_parse\<close> gives it the length of the text.
\<close>

fun parse_value :: "nat \<Rightarrow> jsstring \<Rightarrow> (json \<times> jsstring) option"
  and parse_elements :: "nat \<Rightarrow> jsstring \<Rightarrow> (json list \<times> jsstring) option"
  and parse_members :: "nat \<Rightarrow> jsstring \<Rightarrow> ((jsstring \<times> json) list \<times> jsstring) option" where
  "parse_value 0 s = None"
| "parse_value (Suc fuel) s =
     (case skip_ws s of
        [] \<Rightarrow> None
      | c # cs \<Rightarrow>
          if c = 0x22 then
            (case parse_string_units cs of
               None \<Rightarrow> None
             | Some (str, rest) \<Rightarrow> Some (JString str, rest))
          else if c = 0x5B then
            (case skip_ws cs of
               [] \<Rightarrow> None
             | d # ds \<Rightarrow>
                 if d = 0x5D then Some (JArray [], ds)
                 else (case parse_elements fuel (d # ds) of
                         None \<Rightarrow> None
                       | Some (vs, rest) \<Rightarrow> Some (JArray vs, rest)))
          else if c = 0x7B then
            (case skip_ws cs of
               [] \<Rightarrow> None
             | d # ds \<Rightarrow>
                 if d = 0x7D then Some (JObject [], ds)
                 else (case parse_members fuel (d # ds) of
                         None \<Rightarrow> None
                       | Some (ms, rest) \<Rightarrow>
                           Some (JObject (foldl (\<lambda>obj (k, v). define_property obj k v) [] ms), rest)))
          else if prefix (js ''true'') (c # cs) then Some (JBool True, drop 4 (c # cs))
          else if prefix (js ''false'') (c # cs) then Some (JBool False, drop 5 (c # cs))
          else if prefix (js ''null'') (c # cs) then Some (JNull, drop 4 (c # cs))
          else None)"
| "parse_elements 0 s = None"
| "parse_elements (Suc fuel) s =
     (case parse_value fuel s of
        None \<Rightarrow> None
      | Some (v, rest) \<Rightarrow>
          (case skip_ws rest of
             [] \<Rightarrow> None
           | c # cs \<Rightarrow>
               if c = 0x2C then cons_result v (parse_elements fuel cs)
               else if c = 0x5D then Some ([v], cs)
               else None))"
| "parse_members 0 s = None"
| "parse_members (Suc fuel) s =
     (case skip_ws s of
        [] \<Rightarrow> None
      | q # cs \<Rightarrow>
          if q \<noteq> 0x22 then None
          else
            (case parse_string_units cs of
               None \<Rightarrow> None
             | Some (k, rest) \<Rightarrow>
                 (case skip_ws rest of
                    [] \<Rightarrow> None
                  | colon # rest' \<Rightarrow>
                      if colon \<noteq> 0x3A then None
                      else
                        (case parse_value fuel rest' of
                           None \<Rightarrow> None
                         | Some (v, rest'') \<Rightarrow>
                             (case skip_ws rest'' of
                                [] \<Rightarrow> None
                              | c # cs' \<Rightarrow>
                                  if c = 0x2C then cons_result (k, v) (parse_members fuel cs')
                                  else if c = 0x7D then Some ([(k, v)], cs')
                                  else None)))))"

definition JSON_parse :: "jsstring \<Rightarrow> json option" where
  "JSON_parse text =
     (case parse_value (length text) text of
        None \<Rightarrow> None
      | Some (v, rest) \<Rightarrow> if skip_ws rest = [] then Some v else None)"

section \<open>The export step of main\<close>

text \<open>
  Reading a parsed value as a sequence of records: an array of objects, of each of which
  the four properties of \<open>VideoItem\<close> are read, each a string.
\<close>

definition video_of_json :: "json \<Rightarrow> VideoItem option" where
  "video_of_json j =
     (case j of
        JObject ms \<Rightarrow>
          (case (map_of ms (js ''title''), map_of ms (js ''url''),
                 map_of ms (js ''video_id''), map_of ms (js ''published_at'')) of
             (Some (JString t), Some (JString u), Some (JString i), Some (JString p)) \<Rightarrow>
               Some \<lparr>title = t, url = u, video_id = i, published_at = p\<rparr>
           | _ \<Rightarrow> None)
      | _ \<Rightarrow> None)"

fun videos_of_json :: "json \<Rightarrow> VideoItem list option" where
  "videos_of_json (JArray elems) = those (map video_of_json elems)"
| "videos_of_json _ = None"

text \<open>
  The export step of \<open>main\<close>: the content written for an output format. \<open>stringify\<close> of
  the package \<open>csv-stringify\<close> is not part of the repository and is a parameter.
\<close>

definition export_content ::
  "(VideoItem list \<Rightarrow> jsstring) \<Rightarrow> jsstring \<Rightarrow> VideoItem list \<Rightarrow> jsstring" where
  "export_content csv_stringify outputFormat videos =
     (if outputFormat = js ''csv'' then csv_stringify videos
      else if outputFormat = js ''json'' then JSON_stringify videos
      else join [0x0A] (map (\<lambda>v. title v @ js '' - '' @ url v) videos))"

section \<open>MCPServerHandler: the handler of tool calls\<close>

text \<open>
  The parameters of a \<open>tools/call\<close> request as the handler reads them. The request schema
  of the protocol makes \<open>arguments\<close> optional, and the handler reads \<open>playlist_url\<close> of
  it as an optional string.
\<close>

record tool_arguments =
  playlist_url :: "jsstring option"

record call_tool_params =
  name :: jsstring
  arguments :: "tool_arguments option"

text \<open>
  What the handler does with a request: it returns a response whose content is one text,
  or it throws, which the protocol layer answers with a fault. It throws an \<open>Error\<close>
  with a message of its own, or the engine throws a \<open>TypeError\<close> on reading a property
  of \<open>undefined\<close>.
\<close>

datatype tool_response = TextContent jsstring

datatype fault = Error jsstring | TypeError

text \<open>The decimal digits of a number, as a template literal prints it.\<close>

fun decimal :: "nat \<Rightarrow> jsstring" where
  "decimal n =
     (if n < 10 then [0x30 + of_nat n]
      else decimal (n div 10) @ [0x30 + of_nat (n mod 10)])"

text \<open>The \<open>forEach\<close> over the videos, appending a numbered line for each to \<open>resultText\<close>.\<close>

fun append_lines :: "nat \<Rightarrow> VideoItem list \<Rightarrow> jsstring \<Rightarrow> jsstring" where
  "append_lines idx [] resultText = resultText"
| "append_lines idx (v # vs) resultText =
     append_lines (idx + 1) vs
       (resultText @ decimal (idx + 1) @ js ''. '' @ title v @ js '' ('' @ url v @ js '')'' @ [0x0A])"

text \<open>
  The handler registered for \<open>CallToolRequestSchema\<close>. Reading \<open>args.playlist_url\<close>
  stands before the \<open>try\<close>; everything after it is inside, and the \<open>catch\<close> turns an error
  of the fetch into a text. \<open>None\<close> is a call that never returns, its fetch going on for
  ever. The lines the fetch logs are left out of the result.
\<close>

definition call_tool :: "youtube_api \<Rightarrow> call_tool_params \<Rightarrow> (fault + tool_response) option" where
  "call_tool api params =
     (if name params = js ''get_playlist_videos'' then
        (case arguments params of
           None \<Rightarrow> Some (Inl TypeError)
         | Some args \<Rightarrow>
             (case truthy (playlist_url args) of
                None \<Rightarrow> Some (Inr (TextContent (js ''Error: playlist_url is required'')))
              | Some link \<Rightarrow>
                  (case truthy (extractPlaylistId link) of
                     None \<Rightarrow> Some (Inr (TextContent (js ''Error: Invalid playlist URL'')))
                   | Some pid \<Rightarrow>
                       (case getPlaylistVideos api pid of
                          None \<Rightarrow> None
                        | Some (Inl message, trace) \<Rightarrow>
                            Some (Inr (TextContent (js ''Error processing request: '' @ message)))
                        | Some (Inr videos, trace) \<Rightarrow>
                            Some (Inr (TextContent
                              (append_lines 0 videos
                                 (js ''Found '' @ decimal (length videos) @ js '' videos in playlist:''
                                  @ [0x0A]))))))))
      else Some (Inl (Error (js ''Tool not found: '' @ name params))))"

section \<open>Properties of extractPlaylistId\<close>

lemma str_includes_sublist: "str_includes s p = sublist p s"
  by (induction s) (simp_all add: sublist_Cons_right)

lemma takeWhile_nonempty: "takeWhile P xs \<noteq> [] \<longleftrightarrow> (\<exists>c. P c \<and> prefix [c] xs)"
  by (cases xs) auto

lemma match_here_None_iff:
  "match_here lit s = None \<longleftrightarrow> (\<forall>c. is_id_char c \<longrightarrow> \<not> prefix (lit @ [c]) s)"
proof -
  have "prefix (lit @ [c]) s \<longleftrightarrow> prefix lit s \<and> prefix [c] (drop (length lit) s)" for c
    by (auto simp: prefix_def)
  then show ?thesis
    unfolding match_here_def Let_def using takeWhile_nonempty[of is_id_char "drop (length lit) s"]
    by auto
qed

lemma regex_match_None_iff:
  "regex_match lit s = None \<longleftrightarrow> (\<forall>c. is_id_char c \<longrightarrow> \<not> sublist (lit @ [c]) s)"
proof (induction s)
  case Nil
  show ?case by (simp add: match_here_None_iff)
next
  case (Cons a s)
  show ?case
    using Cons.IH
    by (auto simp add: sublist_Cons_right match_here_None_iff split: option.splits)
      (metis match_here_None_iff option.distinct(1))+
qed

lemma match_here_regex_match:
  "match_here lit s = Some cap \<Longrightarrow> regex_match lit s = Some cap"
  by (cases s) simp_all

lemma regex_match_skip:
  "\<forall>i<length pre. match_here lit (drop i (pre @ s)) = None \<Longrightarrow>
   regex_match lit (pre @ s) = regex_match lit s"
proof (induction pre)
  case Nil
  show ?case by simp
next
  case (Cons a pre)
  have h0: "match_here lit ((a # pre) @ s) = None"
    using Cons.prems[rule_format, of 0] by simp
  have "\<forall>i<length pre. match_here lit (drop i (pre @ s)) = None"
  proof (intro allI impI)
    fix i assume "i < length pre"
    then show "match_here lit (drop i (pre @ s)) = None"
      using Cons.prems[rule_format, of "Suc i"] by simp
  qed
  then have "regex_match lit (pre @ s) = regex_match lit s" by (rule Cons.IH)
  with h0 show ?case by simp
qed

lemma match_here_exact:
  assumes "cap \<noteq> []" "\<forall>c\<in>set cap. is_id_char c" "rest = [] \<or> \<not> is_id_char (hd rest)"
  shows "match_here lit (lit @ cap @ rest) = Some cap"
proof -
  have "takeWhile is_id_char (cap @ rest) = cap"
    using assms(2,3) by (cases rest) (simp_all add: takeWhile_append2)
  with assms(1) show ?thesis by (simp add: match_here_def)
qed

lemma regex_match_Some_position:
  "regex_match lit s = Some cap \<Longrightarrow> \<exists>i\<le>length s. match_here lit (drop i s) = Some cap"
proof (induction s)
  case Nil
  then show ?case by simp
next
  case (Cons a s)
  show ?case
  proof (cases "match_here lit (a # s)")
    case None
    with Cons.prems have "regex_match lit s = Some cap" by simp
    then obtain i where "i \<le> length s" "match_here lit (drop i s) = Some cap"
      using Cons.IH by blast
    then have "Suc i \<le> length (a # s) \<and> match_here lit (drop (Suc i) (a # s)) = Some cap" by simp
    then show ?thesis by blast
  next
    case (Some c)
    with Cons.prems have "match_here lit (drop 0 (a # s)) = Some cap" by simp
    then show ?thesis by blast
  qed
qed

lemma match_here_position_regex_match:
  "match_here lit (drop i s) \<noteq> None \<Longrightarrow> regex_match lit s \<noteq> None"
proof (induction s arbitrary: i)
  case Nil
  then show ?case by simp
next
  case (Cons a s)
  show ?case
  proof (cases i)
    case 0
    with Cons.prems show ?thesis by (auto split: option.splits)
  next
    case (Suc j)
    with Cons.prems have "regex_match lit s \<noteq> None" using Cons.IH[of j] by simp
    then show ?thesis by (auto split: option.splits)
  qed
qed

lemma match_here_append_literal:
  "match_here (l1 @ l2) s = Some cap \<Longrightarrow> match_here l2 (drop (length l1) s) = Some cap"
  by (auto simp: match_here_def Let_def prefix_def split: if_splits)

lemma patterns_split: "js ''playlist?list='' = js ''playlist?'' @ js ''list=''"
  by (simp add: js_def)

lemma length_playlist_q: "length (js ''playlist?'') = 9"
  by (simp add: js_def)

lemma second_pattern_at_first:
  assumes "match_here (js ''playlist?list='') (drop i inp) = Some cap"
  shows "match_here (js ''list='') (drop (9 + i) inp) = Some cap"
proof -
  have "match_here (js ''list='') (drop (length (js ''playlist?'')) (drop i inp)) = Some cap"
    using assms unfolding patterns_split by (rule match_here_append_literal)
  then show ?thesis by (simp only: length_playlist_q drop_drop)
qed

lemma second_pattern_covered:
  assumes "regex_match (js ''playlist?list='') inp = Some cap"
  shows "regex_match (js ''list='') inp \<noteq> None"
proof -
  obtain i where "match_here (js ''playlist?list='') (drop i inp) = Some cap"
    using assms regex_match_Some_position by blast
  then have "match_here (js ''list='') (drop (9 + i) inp) = Some cap"
    by (rule second_pattern_at_first)
  then have "match_here (js ''list='') (drop (9 + i) inp) \<noteq> None" by simp
  then show ?thesis by (rule match_here_position_regex_match)
qed

lemma first_match_patterns:
  "first_match patterns inp = regex_match (js ''list='') inp"
proof (cases "regex_match (js ''list='') inp")
  case None
  then have "regex_match (js ''playlist?list='') inp = None"
    using second_pattern_covered by (cases "regex_match (js ''playlist?list='') inp") auto
  with None show ?thesis by (simp add: patterns_def)
next
  case (Some cap)
  then show ?thesis by (simp add: patterns_def)
qed

text \<open>
  Claim C2, as amended. If \<open>list=<id>\<close> occurs in the input, \<open><id>\<close> being a non-empty string
  of letters, digits, underscores and hyphens that ends at the end of the input or before
  a character outside that class, and at no earlier position of the input does \<open>list=\<close>
  followed by such a character start, then \<open>extractPlaylistId\<close> returns exactly \<open><id>\<close>.
\<close>

theorem extractPlaylistId_first_list_occurrence:
  assumes "pid \<noteq> []" and "list_all is_id_char pid"
    and "rest = [] \<or> \<not> is_id_char (hd rest)"
    and "\<forall>i<length pre. \<forall>c. is_id_char c \<longrightarrow>
           \<not> prefix (js ''list='' @ [c]) (drop i (pre @ js ''list='' @ pid @ rest))"
  shows "extractPlaylistId (pre @ js ''list='' @ pid @ rest) = Some pid"
proof -
  let ?s = "js ''list='' @ pid @ rest"
  have here: "match_here (js ''list='') ?s = Some pid"
    using assms(1-3) by (intro match_here_exact) (simp_all add: list_all_iff)
  have "\<forall>i<length pre. match_here (js ''list='') (drop i (pre @ ?s)) = None"
    using assms(4) by (simp add: match_here_None_iff)
  then have "regex_match (js ''list='') (pre @ ?s) = regex_match (js ''list='') ?s"
    by (rule regex_match_skip)
  also have "\<dots> = Some pid"
    using here by (rule match_here_regex_match)
  finally show ?thesis
    by (simp add: extractPlaylistId_def first_match_patterns)
qed

lemma earlier_start_iff:
  "(\<exists>i<n. \<exists>c. is_id_char c \<and> prefix (lit @ [c]) (drop i u)) \<longleftrightarrow>
   list_ex (\<lambda>i. match_here lit (drop i u) \<noteq> None) [0..<n]"
proof -
  have "match_here lit (drop i u) \<noteq> None \<longleftrightarrow> (\<exists>c. is_id_char c \<and> prefix (lit @ [c]) (drop i u))" for i
    by (simp add: match_here_None_iff)
  then show ?thesis
    by (simp only: list_ex_iff set_upt atLeastLessThan_iff Bex_def) blast
qed

theorem extractPlaylistId_first_list_occurrence_witness:
  "js ''PL123'' \<noteq> [] \<and> list_all is_id_char (js ''PL123'') \<and>
   \<not> (\<exists>i<length (js ''https://www.youtube.com/playlist?''). \<exists>c. is_id_char c \<and>
        prefix (js ''list='' @ [c])
          (drop i (js ''https://www.youtube.com/playlist?'' @ js ''list='' @ js ''PL123'' @ []))) \<and>
   extractPlaylistId (js ''https://www.youtube.com/playlist?list=PL123'') = Some (js ''PL123'')"
proof -
  let ?pre = "js ''https://www.youtube.com/playlist?''"
  have h1: "js ''PL123'' \<noteq> []" by (simp add: js_def)
  have h2: "list_all is_id_char (js ''PL123'')" by (simp add: js_def is_id_char_def)
  have h3: "([]::jsstring) = [] \<or> \<not> is_id_char (hd [])" by simp
  have h4: "\<not> (\<exists>i<length ?pre. \<exists>c. is_id_char c \<and>
        prefix (js ''list='' @ [c]) (drop i (?pre @ js ''list='' @ js ''PL123'' @ [])))"
    unfolding earlier_start_iff by (simp add: js_def match_here_def)
  then have h4': "\<forall>i<length ?pre. \<forall>c. is_id_char c \<longrightarrow>
        \<not> prefix (js ''list='' @ [c]) (drop i (?pre @ js ''list='' @ js ''PL123'' @ []))"
    by blast
  have eq: "?pre @ js ''list='' @ js ''PL123'' @ [] = js ''https://www.youtube.com/playlist?list=PL123''"
    by (simp add: js_def)
  show ?thesis
    using extractPlaylistId_first_list_occurrence[OF h1 h2 h3 h4'] h1 h2 h4 unfolding eq by blast
qed

text \<open>
  Without the condition on earlier positions the statement fails: this URL carries the
  query parameter \<open>list=PL123\<close>, and the pattern matches before it, inside
  \<open>playlist=AB\<close>.
\<close>

theorem extractPlaylistId_query_parameter_counterexample:
  "has_query_parameter (js ''https://www.youtube.com/watch?playlist=AB&list=PL123'')
     (js ''list'') (js ''PL123'') \<and>
   extractPlaylistId (js ''https://www.youtube.com/watch?playlist=AB&list=PL123'') = Some (js ''AB'') \<and>
   js ''AB'' \<noteq> js ''PL123''"
  by (simp add: has_query_parameter_def query_component_def extractPlaylistId_def patterns_def
      js_def match_here_def is_id_char_def)

lemma first_match_no_occurrence:
  assumes "\<forall>c. is_id_char c \<longrightarrow> \<not> sublist (js ''list='' @ [c]) inp"
  shows "first_match patterns inp = None"
  using assms by (simp add: first_match_patterns regex_match_None_iff)

lemma id_token_no_pattern:
  assumes "list_all is_id_char inp"
  shows "\<forall>c. is_id_char c \<longrightarrow> \<not> sublist (js ''list='' @ [c]) inp"
proof (intro allI impI notI)
  fix c
  assume "sublist (js ''list='' @ [c]) inp"
  then have "set (js ''list='' @ [c]) \<subseteq> set inp" by (rule set_mono_sublist)
  moreover have "0x3D \<in> set (js ''list='' @ [c])" by (simp add: js_def)
  ultimately have "is_id_char 0x3D" using assms by (auto simp: list_all_iff)
  then show False by (simp add: is_id_char_def)
qed

text \<open>
  Claim C4. A bare token is an input in which no recognition pattern matches: nowhere in it
  is \<open>list=\<close> followed by a letter, digit, underscore or hyphen (by \<open>id_token_no_pattern\<close>
  every token made of such characters only is one). Every such input that is longer than
  10 code units and does not contain \<open>http\<close> is returned unchanged.
\<close>

theorem extractPlaylistId_bare_token:
  assumes "length inp > 10" and "\<not> sublist (js ''http'') inp"
    and "\<forall>c. is_id_char c \<longrightarrow> \<not> sublist (js ''list='' @ [c]) inp"
  shows "extractPlaylistId inp = Some inp"
  using assms(1,2) first_match_no_occurrence[OF assms(3)]
  by (simp add: extractPlaylistId_def direct_id_def str_includes_sublist)

theorem extractPlaylistId_bare_token_witness:
  "length (js ''PLrAXtmErZgOe'') > 10 \<and> \<not> sublist (js ''http'') (js ''PLrAXtmErZgOe'') \<and>
   \<not> (\<exists>c. is_id_char c \<and> sublist (js ''list='' @ [c]) (js ''PLrAXtmErZgOe'')) \<and>
   extractPlaylistId (js ''PLrAXtmErZgOe'') = Some (js ''PLrAXtmErZgOe'')"
proof -
  let ?t = "js ''PLrAXtmErZgOe''"
  have h1: "length ?t > 10" by (simp add: js_def)
  have h2: "\<not> sublist (js ''http'') ?t" by (simp add: js_def sublist_Cons_right)
  have h3: "\<not> (\<exists>c. is_id_char c \<and> sublist (js ''list='' @ [c]) ?t)"
    by (simp add: js_def sublist_Cons_right)
  then have h3': "\<forall>c. is_id_char c \<longrightarrow> \<not> sublist (js ''list='' @ [c]) ?t" by blast
  show ?thesis
    using extractPlaylistId_bare_token[OF h1 h2 h3'] h1 h2 h3 by blast
qed

text \<open>
  Claim C5. An input of at most 10 code units in which no recognition pattern matches
  (nowhere is \<open>list=\<close> followed by a letter, digit, underscore or hyphen) gives \<open>null\<close>.
\<close>

theorem extractPlaylistId_short_token:
  assumes "length inp \<le> 10"
    and "\<forall>c. is_id_char c \<longrightarrow> \<not> sublist (js ''list='' @ [c]) inp"
  shows "extractPlaylistId inp = None"
  using assms(1) first_match_no_occurrence[OF assms(2)]
  by (simp add: extractPlaylistId_def direct_id_def)

theorem extractPlaylistId_short_token_witness:
  "length (js ''PL123'') \<le> 10 \<and>
   \<not> (\<exists>c. is_id_char c \<and> sublist (js ''list='' @ [c]) (js ''PL123'')) \<and>
   extractPlaylistId (js ''PL123'') = None"
proof -
  have h1: "length (js ''PL123'') \<le> 10" by (simp add: js_def)
  have h2: "\<not> (\<exists>c. is_id_char c \<and> sublist (js ''list='' @ [c]) (js ''PL123''))"
    by (simp add: js_def sublist_Cons_right)
  then have h2': "\<forall>c. is_id_char c \<longrightarrow> \<not> sublist (js ''list='' @ [c]) (js ''PL123'')" by blast
  show ?thesis
    using extractPlaylistId_short_token[OF h1 h2'] h1 h2 by blast
qed

text \<open>
  Claim C10. On every input \<open>extractPlaylistId\<close> agrees with the variant that tries only the
  first pattern before the fallback. The second pattern never decides: where it matches,
  at any position, the first pattern matches nine code units further on (past
  \<open>playlist?\<close>) with the same capture, so the first pattern has a match in that input.
\<close>

theorem extractPlaylistId_second_pattern_redundant:
  "extractPlaylistId inp = extractPlaylistId_first_pattern inp \<and>
   (\<forall>i cap. match_here (js ''playlist?list='') (drop i inp) = Some cap \<longrightarrow>
      match_here (js ''list='') (drop (9 + i) inp) = Some cap) \<and>
   (regex_match (js ''playlist?list='') inp \<noteq> None \<longrightarrow> regex_match (js ''list='') inp \<noteq> None)"
proof (intro conjI allI impI)
  show "extractPlaylistId inp = extractPlaylistId_first_pattern inp"
    by (simp add: extractPlaylistId_def extractPlaylistId_first_pattern_def first_match_patterns)
next
  fix i cap
  assume "match_here (js ''playlist?list='') (drop i inp) = Some cap"
  then show "match_here (js ''list='') (drop (9 + i) inp) = Some cap"
    by (rule second_pattern_at_first)
next
  assume "regex_match (js ''playlist?list='') inp \<noteq> None"
  then obtain cap where "regex_match (js ''playlist?list='') inp = Some cap" by blast
  then show "regex_match (js ''list='') inp \<noteq> None"
    by (rule second_pattern_covered)
qed

theorem extractPlaylistId_second_pattern_redundant_witness:
  "match_here (js ''playlist?list='') (drop 24 (js ''https://www.youtube.com/playlist?list=PL123''))
     = Some (js ''PL123'') \<and>
   match_here (js ''list='') (drop (9 + 24) (js ''https://www.youtube.com/playlist?list=PL123''))
     = Some (js ''PL123'') \<and>
   regex_match (js ''playlist?list='') (js ''https://www.youtube.com/playlist?list=PL123'') \<noteq> None \<and>
   regex_match (js ''list='') (js ''https://www.youtube.com/playlist?list=PL123'') \<noteq> None \<and>
   extractPlaylistId (js ''https://www.youtube.com/playlist?list=PL123'')
     = extractPlaylistId_first_pattern (js ''https://www.youtube.com/playlist?list=PL123'')"
proof -
  let ?u = "js ''https://www.youtube.com/playlist?list=PL123''"
  have h1: "match_here (js ''playlist?list='') (drop 24 ?u) = Some (js ''PL123'')"
    by (simp add: js_def match_here_def is_id_char_def)
  have h2: "regex_match (js ''playlist?list='') ?u \<noteq> None"
    by (simp add: js_def match_here_def is_id_char_def)
  show ?thesis
    using extractPlaylistId_second_pattern_redundant[of ?u] h1 h2 by blast
qed

section \<open>Properties of getPlaylistVideos\<close>

lemma truthy_None_iff: "truthy v = None \<longleftrightarrow> v = None \<or> v = Some []"
  by (auto simp: truthy_def split: option.splits)

lemma truthy_carries: "carries_token page \<Longrightarrow> truthy (nextPageToken page) = nextPageToken page"
  by (auto simp: carries_token_def truthy_def split: option.splits)

text \<open>The records one page contributes.\<close>

lemma push_items_append:
  "push_items its videos = videos @ push_items its []"
proof (induction its arbitrary: videos)
  case Nil
  show ?case by simp
next
  case (Cons item its)
  show ?case
    using Cons.IH[of videos] Cons.IH[of "videos @ [v]" for v] Cons.IH[of "[v]" for v]
    by (simp split: option.splits)
qed

lemma video_ids_push_items:
  "map video_id (push_items its []) = List.map_filter resolvable_video_id its"
proof (induction its)
  case Nil
  show ?case by (simp add: map_filter_simps)
next
  case (Cons item its)
  have step: "map video_id (push_items its [v]) = video_id v # map video_id (push_items its [])" for v
    using push_items_append[of its "[v]"] by simp
  show ?case
    using Cons.IH
    by (simp add: map_filter_simps step resolvable_video_id_def truthy_def split: option.splits)
qed

lemma length_push_items:
  "length (push_items its []) = length (filter (\<lambda>i. resolvable_video_id i \<noteq> None) its)"
proof -
  have "length (push_items its []) = length (map video_id (push_items its []))" by simp
  also have "\<dots> = length (List.map_filter resolvable_video_id its)"
    by (simp only: video_ids_push_items)
  also have "\<dots> = length (filter (\<lambda>i. resolvable_video_id i \<noteq> None) its)"
    by (simp add: map_filter_def)
  finally show ?thesis .
qed

lemma fetch_loop_continue:
  assumes "api (list_request pid tok) = Inr page" and "carries_token page"
  shows "fetch_loop api pid tok videos trace =
         fetch_loop api pid (nextPageToken page) (videos @ push_items (page_items page) [])
           (trace @ [ApiRequest tok,
              LogFetchedSoFar (length videos +
                length (filter (\<lambda>i. resolvable_video_id i \<noteq> None) (page_items page)))])"
proof -
  have pi: "push_items (page_items page) videos = videos @ push_items (page_items page) []"
    by (rule push_items_append)
  show ?thesis
    apply (subst fetch_loop.simps)
    apply (simp only: assms(1) sum.case Let_def truthy_carries[OF assms(2)]
        page_items_def[symmetric])
    using assms(2) pi
    apply (simp add: carries_token_def length_push_items)
    done
qed

lemma fetch_loop_last:
  assumes "api (list_request pid tok) = Inr page" and "\<not> carries_token page"
  shows "fetch_loop api pid tok videos trace =
         Some (Inr (videos @ push_items (page_items page) []), trace @ [ApiRequest tok])"
proof -
  have pi: "push_items (page_items page) videos = videos @ push_items (page_items page) []"
    by (rule push_items_append)
  have no: "truthy (nextPageToken page) = None"
    using assms(2) by (auto simp: carries_token_def truthy_None_iff)
  show ?thesis
    apply (subst fetch_loop.simps)
    apply (simp only: assms(1) sum.case Let_def no page_items_def[symmetric])
    using pi
    apply simp
    done
qed

lemma fetch_loop_fails:
  assumes "api (list_request pid tok) = Inl msg"
  shows "fetch_loop api pid tok videos trace =
         Some (Inl (js ''YouTube API Error: '' @ msg), trace @ [ApiRequest tok])"
  by (subst fetch_loop.simps) (simp only: assms sum.case)

lemma fetch_loop_pages_served:
  assumes "pages_served api pid tok pages tok'"
  shows "fetch_loop api pid tok videos trace =
         fetch_loop api pid tok' (videos @ concat (map (\<lambda>p. push_items (page_items p) []) pages))
           (trace @ page_events tok (length videos) pages)"
  using assms
proof (induction pages arbitrary: tok videos trace)
  case Nil
  then show ?case by simp
next
  case (Cons page pages)
  from Cons.prems have a: "api (list_request pid tok) = Inr page" and c: "carries_token page"
    and rest: "pages_served api pid (nextPageToken page) pages tok'" by simp_all
  show ?case
    by (simp add: fetch_loop_continue[of api pid tok page, OF a c] Cons.IH[OF rest] length_push_items)
qed

lemma requests_sent_append: "requests_sent (xs @ ys) = requests_sent xs @ requests_sent ys"
  by (induction xs rule: requests_sent.induct) simp_all

lemma length_requests_page_events: "length (requests_sent (page_events tok n pages)) = length pages"
  by (induction pages arbitrary: tok n) simp_all

lemma video_ids_pages:
  "map video_id (concat (map (\<lambda>p. push_items (page_items p) []) pages)) =
   concat (map (\<lambda>p. List.map_filter resolvable_video_id (page_items p)) pages)"
  by (induction pages) (simp_all add: video_ids_push_items)

lemma length_pages:
  "length (concat (map (\<lambda>p. push_items (page_items p) []) pages)) =
   (\<Sum>p\<leftarrow>pages. length (filter (\<lambda>i. resolvable_video_id i \<noteq> None) (page_items p)))"
  by (induction pages) (simp_all add: length_push_items)

text \<open>
  Claim C1. When the service answers the successive requests with the pages of
  \<open>pages @ [final]\<close>, every page of \<open>pages\<close> carrying a continuation token and \<open>final\<close>
  none, the fetch returns records and no error. Their video identifiers are those of the
  items that carry a resolvable one, page after page and item after item; their number is
  the sum over the pages of the number of such items.
\<close>

theorem getPlaylistVideos_all_pages:
  assumes "pages_served api pid None pages tok"
    and "api (list_request pid tok) = Inr final" and "\<not> carries_token final"
  shows "\<exists>videos trace.
           getPlaylistVideos api pid = Some (Inr videos, trace) \<and>
           map video_id videos =
             concat (map (\<lambda>p. List.map_filter resolvable_video_id (page_items p)) (pages @ [final])) \<and>
           length videos =
             (\<Sum>p\<leftarrow>pages @ [final]. length (filter (\<lambda>i. resolvable_video_id i \<noteq> None) (page_items p)))"
proof -
  let ?recs = "\<lambda>ps. concat (map (\<lambda>p. push_items (page_items p) []) ps)"
  let ?trace = "[LogFetching pid] @ page_events None (length ([]::VideoItem list)) pages @ [ApiRequest tok]"
  have "getPlaylistVideos api pid = Some (Inr (?recs (pages @ [final])), ?trace)"
    unfolding getPlaylistVideos_def
    by (simp add: fetch_loop_pages_served[OF assms(1)] fetch_loop_last[of api pid tok final, OF assms(2,3)])
  moreover have "map video_id (?recs (pages @ [final])) =
      concat (map (\<lambda>p. List.map_filter resolvable_video_id (page_items p)) (pages @ [final]))"
    by (rule video_ids_pages)
  moreover have "length (?recs (pages @ [final])) =
      (\<Sum>p\<leftarrow>pages @ [final]. length (filter (\<lambda>i. resolvable_video_id i \<noteq> None) (page_items p)))"
    by (rule length_pages)
  ultimately show ?thesis by blast
qed

text \<open>
  Claim C8. When a request fails, whatever pages were served before it, the fetch stops at
  that request: it sent one request per page served and the failed one, which is its last
  event, and its outcome is the error whose message wraps the original one. The outcome
  of a failed fetch holds no records.
\<close>

theorem getPlaylistVideos_request_fails:
  assumes "pages_served api pid None pages tok"
    and "api (list_request pid tok) = Inl msg"
  shows "\<exists>trace.
           getPlaylistVideos api pid = Some (Inl (js ''YouTube API Error: '' @ msg), trace) \<and>
           last trace = ApiRequest tok \<and>
           length (requests_sent trace) = Suc (length pages)"
proof -
  let ?trace = "[LogFetching pid] @ page_events None (length ([]::VideoItem list)) pages @ [ApiRequest tok]"
  have "getPlaylistVideos api pid = Some (Inl (js ''YouTube API Error: '' @ msg), ?trace)"
    unfolding getPlaylistVideos_def
    by (simp add: fetch_loop_pages_served[OF assms(1)] fetch_loop_fails[of api pid tok msg, OF assms(2)])
  moreover have "last ?trace = ApiRequest tok" by simp
  moreover have "length (requests_sent ?trace) = Suc (length pages)"
    by (simp add: requests_sent_append length_requests_page_events)
  ultimately show ?thesis by blast
qed

lemma T1_not_empty: "js ''T1'' \<noteq> []"
  by (simp add: js_def)

lemma resolvable_listed_video: "resolvable_video_id (listed_video vid ttl) = (if vid = [] then None else Some vid)"
  by (simp add: resolvable_video_id_def listed_video_def)

lemma resolvable_no_snippet: "resolvable_video_id \<lparr>snippet = None\<rparr> = None"
  by (simp add: resolvable_video_id_def)

lemma sample_ids_not_empty: "js ''a1'' \<noteq> []" "js ''b2'' \<noteq> []"
  by (simp_all add: js_def)

lemma pages_served_gaps:
  "pages_served gaps_api pid None [gaps_page] (Some (js ''T1''))"
  by (simp add: gaps_api_def list_request_def carries_token_def gaps_page_def T1_not_empty)

lemma gaps_final:
  "gaps_api (list_request pid (Some (js ''T1''))) = Inr gaps_final_page"
  "\<not> carries_token gaps_final_page"
  by (simp_all add: gaps_api_def list_request_def carries_token_def gaps_final_page_def)

lemma gaps_ids:
  "concat (map (\<lambda>p. List.map_filter resolvable_video_id (page_items p)) ([gaps_page] @ [gaps_final_page]))
   = [js ''a1'', js ''b2'']"
  by (simp add: page_items_def gaps_page_def gaps_final_page_def map_filter_simps
      resolvable_listed_video resolvable_no_snippet sample_ids_not_empty)

lemma gaps_count:
  "(\<Sum>p\<leftarrow>[gaps_page] @ [gaps_final_page].
      length (filter (\<lambda>i. resolvable_video_id i \<noteq> None) (page_items p))) = 2"
  by (simp add: page_items_def gaps_page_def gaps_final_page_def
      resolvable_listed_video resolvable_no_snippet sample_ids_not_empty)

theorem getPlaylistVideos_all_pages_witness:
  "pages_served gaps_api (js ''PL123'') None [gaps_page] (Some (js ''T1'')) \<and>
   gaps_api (list_request (js ''PL123'') (Some (js ''T1''))) = Inr gaps_final_page \<and>
   \<not> carries_token gaps_final_page \<and>
   (\<exists>videos trace.
      getPlaylistVideos gaps_api (js ''PL123'') = Some (Inr videos, trace) \<and>
      map video_id videos = [js ''a1'', js ''b2''] \<and> length videos = 2)"
  using getPlaylistVideos_all_pages[OF pages_served_gaps[of "js ''PL123''"]
      gaps_final(1)[of "js ''PL123''"] gaps_final(2)]
    pages_served_gaps[of "js ''PL123''"] gaps_final(1)[of "js ''PL123''"] gaps_final(2)
  unfolding gaps_ids gaps_count by blast

lemma pages_served_failing:
  "pages_served failing_api pid None [gaps_page] (Some (js ''T1''))"
  by (simp add: failing_api_def list_request_def carries_token_def gaps_page_def T1_not_empty)

lemma failing_fails:
  "failing_api (list_request pid (Some (js ''T1''))) = Inl (js ''quotaExceeded'')"
  by (simp add: failing_api_def list_request_def)

theorem getPlaylistVideos_request_fails_witness:
  "pages_served failing_api (js ''PL123'') None [gaps_page] (Some (js ''T1'')) \<and>
   failing_api (list_request (js ''PL123'') (Some (js ''T1''))) = Inl (js ''quotaExceeded'') \<and>
   (\<exists>trace.
      getPlaylistVideos failing_api (js ''PL123'')
        = Some (Inl (js ''YouTube API Error: '' @ js ''quotaExceeded''), trace) \<and>
      last trace = ApiRequest (Some (js ''T1'')) \<and>
      length (requests_sent trace) = Suc (length [gaps_page]))"
  using getPlaylistVideos_request_fails[OF pages_served_failing[of "js ''PL123''"]
      failing_fails[of "js ''PL123''"]]
    pages_served_failing[of "js ''PL123''"] failing_fails[of "js ''PL123''"]
  by blast

lemma push_items_all_resolvable:
  "list_all (\<lambda>i. resolvable_video_id i \<noteq> None) its \<Longrightarrow> length (push_items its []) = length its"
  by (simp add: length_push_items list_all_iff)

text \<open>
  Claim C3, as amended. In a two-page fetch, page 1 with 50 items and the continuation
  token \<open>T1\<close>, page 2 with 3 items and no token, every item carrying a resolvable video
  identifier, the fetch returns 53 records and logs exactly one progress observation: the
  count 50, after page 1, the only page with a continuation token. Nothing is logged after
  the last page.
\<close>

theorem getPlaylistVideos_two_pages:
  assumes "api (list_request pid None) = Inr \<lparr>items = Some items1, nextPageToken = Some (js ''T1'')\<rparr>"
    and "api (list_request pid (Some (js ''T1''))) = Inr \<lparr>items = Some items2, nextPageToken = None\<rparr>"
    and "length items1 = 50" and "length items2 = 3"
    and "list_all (\<lambda>i. resolvable_video_id i \<noteq> None) (items1 @ items2)"
  shows "\<exists>videos.
           getPlaylistVideos api pid =
             Some (Inr videos,
                   [LogFetching pid, ApiRequest None, LogFetchedSoFar 50, ApiRequest (Some (js ''T1''))]) \<and>
           length videos = 53 \<and>
           progress_observations
             [LogFetching pid, ApiRequest None, LogFetchedSoFar 50, ApiRequest (Some (js ''T1''))] = [50]"
proof -
  let ?p1 = "\<lparr>items = Some items1, nextPageToken = Some (js ''T1'')\<rparr>"
  let ?p2 = "\<lparr>items = Some items2, nextPageToken = None\<rparr>"
  have c1: "carries_token ?p1" by (simp add: carries_token_def T1_not_empty)
  have c2: "\<not> carries_token ?p2" by (simp add: carries_token_def)
  have r1: "list_all (\<lambda>i. resolvable_video_id i \<noteq> None) items1"
    and r2: "list_all (\<lambda>i. resolvable_video_id i \<noteq> None) items2"
    using assms(5) by simp_all
  have n1: "length (filter (\<lambda>i. resolvable_video_id i \<noteq> None) items1) = 50"
    using r1 assms(3) by (simp add: list_all_iff)
  have l1: "length (push_items items1 []) = 50"
    using push_items_all_resolvable[OF r1] assms(3) by simp
  have l2: "length (push_items items2 []) = 3"
    using push_items_all_resolvable[OF r2] assms(4) by simp
  have "getPlaylistVideos api pid =
        Some (Inr (push_items items1 [] @ push_items items2 []),
              [LogFetching pid, ApiRequest None, LogFetchedSoFar 50, ApiRequest (Some (js ''T1''))])"
    unfolding getPlaylistVideos_def
    using n1
    by (simp add: fetch_loop_continue[of api pid None ?p1, OF assms(1) c1]
        fetch_loop_last[of api pid "Some (js ''T1'')" ?p2, OF assms(2) c2] page_items_def)
  moreover have "length (push_items items1 [] @ push_items items2 []) = 53"
    using l1 l2 by simp
  ultimately show ?thesis by auto
qed

lemma two_page_api_pages:
  "two_page_api (list_request pid None) =
     Inr \<lparr>items = Some (replicate 50 (listed_video (js ''a1'') (js ''A''))), nextPageToken = Some (js ''T1'')\<rparr>"
  "two_page_api (list_request pid (Some (js ''T1''))) =
     Inr \<lparr>items = Some (replicate 3 (listed_video (js ''b2'') (js ''B''))), nextPageToken = None\<rparr>"
  by (simp_all add: two_page_api_def list_request_def)

lemma two_page_api_resolvable:
  "list_all (\<lambda>i. resolvable_video_id i \<noteq> None)
     (replicate 50 (listed_video (js ''a1'') (js ''A'')) @ replicate 3 (listed_video (js ''b2'') (js ''B'')))"
  by (simp add: list_all_iff resolvable_listed_video sample_ids_not_empty)

theorem getPlaylistVideos_two_pages_witness:
  "two_page_api (list_request (js ''PL123'') None) =
     Inr \<lparr>items = Some (replicate 50 (listed_video (js ''a1'') (js ''A''))), nextPageToken = Some (js ''T1'')\<rparr> \<and>
   two_page_api (list_request (js ''PL123'') (Some (js ''T1''))) =
     Inr \<lparr>items = Some (replicate 3 (listed_video (js ''b2'') (js ''B''))), nextPageToken = None\<rparr> \<and>
   length (replicate 50 (listed_video (js ''a1'') (js ''A''))) = 50 \<and>
   length (replicate 3 (listed_video (js ''b2'') (js ''B''))) = 3 \<and>
   list_all (\<lambda>i. resolvable_video_id i \<noteq> None)
     (replicate 50 (listed_video (js ''a1'') (js ''A'')) @ replicate 3 (listed_video (js ''b2'') (js ''B''))) \<and>
   (\<exists>videos.
      getPlaylistVideos two_page_api (js ''PL123'') =
        Some (Inr videos,
              [LogFetching (js ''PL123''), ApiRequest None, LogFetchedSoFar 50,
               ApiRequest (Some (js ''T1''))]) \<and>
      length videos = 53)"
proof -
  have l1: "length (replicate 50 (listed_video (js ''a1'') (js ''A''))) = 50" by simp
  have l2: "length (replicate 3 (listed_video (js ''b2'') (js ''B''))) = 3" by simp
  show ?thesis
    using getPlaylistVideos_two_pages[OF two_page_api_pages(1)[of "js ''PL123''"]
        two_page_api_pages(2)[of "js ''PL123''"] l1 l2 two_page_api_resolvable]
      two_page_api_pages[of "js ''PL123''"] two_page_api_resolvable l1 l2
    by blast
qed

lemma push_items_listed:
  assumes "vid \<noteq> []" and "ttl \<noteq> []"
  shows "push_items (replicate n (listed_video vid ttl)) [] = replicate n (listed_record vid ttl)"
proof (induction n)
  case 0
  show ?case by simp
next
  case (Suc n)
  have "push_items (replicate (Suc n) (listed_video vid ttl)) []
        = push_items (replicate n (listed_video vid ttl)) [listed_record vid ttl]"
    using assms
    by (simp add: listed_video_def listed_record_def truthy_def or_default_def js_def)
  also have "\<dots> = [listed_record vid ttl] @ push_items (replicate n (listed_video vid ttl)) []"
    by (rule push_items_append)
  finally show ?case using Suc by simp
qed

text \<open>
  On the sample service with two pages the fetch logs the announcement and one progress
  line; no second progress observation follows the last page.
\<close>

theorem getPlaylistVideos_two_progress_counterexample:
  "getPlaylistVideos two_page_api (js ''PL123'') =
     Some (Inr (replicate 50 (listed_record (js ''a1'') (js ''A'')) @
                replicate 3 (listed_record (js ''b2'') (js ''B''))),
           [LogFetching (js ''PL123''), ApiRequest None, LogFetchedSoFar 50,
            ApiRequest (Some (js ''T1''))]) \<and>
   length (replicate 50 (listed_record (js ''a1'') (js ''A'')) @
           replicate 3 (listed_record (js ''b2'') (js ''B''))) = 53 \<and>
   length (progress_observations
            [LogFetching (js ''PL123''), ApiRequest None, LogFetchedSoFar 50,
             ApiRequest (Some (js ''T1''))]) \<noteq> 2"
proof -
  let ?p1 = "\<lparr>items = Some (replicate 50 (listed_video (js ''a1'') (js ''A''))), nextPageToken = Some (js ''T1'')\<rparr>"
  let ?p2 = "\<lparr>items = Some (replicate 3 (listed_video (js ''b2'') (js ''B''))), nextPageToken = None\<rparr>"
  have c1: "carries_token ?p1" by (simp add: carries_token_def T1_not_empty)
  have c2: "\<not> carries_token ?p2" by (simp add: carries_token_def)
  have a1: "js ''a1'' \<noteq> []" and b2: "js ''b2'' \<noteq> []"
    and ta: "js ''A'' \<noteq> []" and tb: "js ''B'' \<noteq> []" by (simp_all add: js_def)
  have n1: "length (filter (\<lambda>i. resolvable_video_id i \<noteq> None)
              (replicate 50 (listed_video (js ''a1'') (js ''A'')))) = 50"
    using a1 by (simp add: resolvable_listed_video)
  have "getPlaylistVideos two_page_api (js ''PL123'') =
     Some (Inr (replicate 50 (listed_record (js ''a1'') (js ''A'')) @
                replicate 3 (listed_record (js ''b2'') (js ''B''))),
           [LogFetching (js ''PL123''), ApiRequest None, LogFetchedSoFar 50,
            ApiRequest (Some (js ''T1''))])"
    unfolding getPlaylistVideos_def
    using n1
    by (simp add: fetch_loop_continue[of two_page_api "js ''PL123''" None ?p1, OF two_page_api_pages(1) c1]
        fetch_loop_last[of two_page_api "js ''PL123''" "Some (js ''T1'')" ?p2, OF two_page_api_pages(2) c2]
        page_items_def push_items_listed[OF a1 ta] push_items_listed[OF b2 tb])
  then show ?thesis by simp
qed

section \<open>Properties of the export\<close>

lemma parse_raw_unit:
  "c \<noteq> 0x22 \<Longrightarrow> c \<noteq> 0x5C \<Longrightarrow> \<not> c < 0x20 \<Longrightarrow>
   parse_string_units (c # rest) = cons_result c (parse_string_units rest)"
  apply (subst parse_string_units.simps)
  apply (simp only: if_False)
  done

lemma hex_digits_all: "\<forall>n\<in>set [0..<16]. hex_value (hex_digit n) = Some n"
  by code_simp

lemma hex_value_hex_digit: "n < 16 \<Longrightarrow> hex_value (hex_digit n) = Some n"
  using hex_digits_all by simp

lemma nibbles_nat:
  "(n::nat) div 4096 mod 16 * 4096 + n div 256 mod 16 * 256 + n div 16 mod 16 * 16 + n mod 16
   = n mod 65536"
proof -
  have a: "n mod 65536 = 4096 * (n div 4096 mod 16) + n mod 4096"
    using mod_mult2_eq[of n 4096 16] by simp
  have b: "n mod 4096 = 256 * (n div 256 mod 16) + n mod 256"
    using mod_mult2_eq[of n 256 16] by simp
  have c: "n mod 256 = 16 * (n div 16 mod 16) + n mod 16"
    using mod_mult2_eq[of n 16 16] by simp
  show ?thesis unfolding a b c by simp
qed

lemma hex4_unicode_escape:
  "hex4 (hex_digit (unat c div 4096 mod 16)) (hex_digit (unat c div 256 mod 16))
        (hex_digit (unat c div 16 mod 16)) (hex_digit (unat c mod 16)) = Some (c::code_unit)"
proof -
  have "unat c < 65536" using unsigned_less[of c] by simp
  then have m: "unat c mod 65536 = unat c" by simp
  have "(of_nat (unat c div 4096 mod 16 * 4096 + unat c div 256 mod 16 * 256 + unat c div 16 mod 16 * 16 + unat c mod 16) :: code_unit)
     = of_nat (unat c)"
    by (simp only: nibbles_nat m)
  also have "\<dots> = c" by simp
  finally have e: "(of_nat (unat c div 4096 mod 16 * 4096 + unat c div 256 mod 16 * 256 + unat c div 16 mod 16 * 16 + unat c mod 16) :: code_unit) = c" .
  have h: "hex_value (hex_digit (unat c div 4096 mod 16)) = Some (unat c div 4096 mod 16)"
    "hex_value (hex_digit (unat c div 256 mod 16)) = Some (unat c div 256 mod 16)"
    "hex_value (hex_digit (unat c div 16 mod 16)) = Some (unat c div 16 mod 16)"
    "hex_value (hex_digit (unat c mod 16)) = Some (unat c mod 16)"
    by (simp_all only: hex_value_hex_digit mod_less_divisor zero_less_numeral)
  show ?thesis
    unfolding hex4_def by (simp only: h prod.case option.case e)
qed

lemma parse_backslash_u:
  "parse_string_units (0x5C # 0x75 # h1 # h2 # h3 # h4 # rest) =
     (case hex4 h1 h2 h3 h4 of None \<Rightarrow> None | Some u \<Rightarrow> cons_result u (parse_string_units rest))"
  by simp

lemma parse_backslash_simple:
  "simple_escape e = Some u \<Longrightarrow> e \<noteq> 0x75 \<Longrightarrow>
   parse_string_units (0x5C # e # rest) = cons_result u (parse_string_units rest)"
  by simp

lemma parse_unicode_escape:
  "parse_string_units (unicode_escape c @ rest) = cons_result c (parse_string_units rest)"
  unfolding unicode_escape_def
  by (simp only: append_Cons append_Nil parse_backslash_u hex4_unicode_escape option.case)

lemma simple_escapes:
  "simple_escape 0x62 = Some 0x08" "simple_escape 0x74 = Some 0x09" "simple_escape 0x6E = Some 0x0A"
  "simple_escape 0x66 = Some 0x0C" "simple_escape 0x72 = Some 0x0D" "simple_escape 0x22 = Some 0x22"
  "simple_escape 0x5C = Some 0x5C"
  by (simp_all add: simple_escape_def)

lemma parse_quote_unit:
  "parse_string_units (quote_unit c @ rest) = cons_result c (parse_string_units rest)"
proof -
  consider "c = 0x08" | "c = 0x09" | "c = 0x0A" | "c = 0x0C" | "c = 0x0D" | "c = 0x22" | "c = 0x5C"
    | "c \<noteq> 0x08" "c \<noteq> 0x09" "c \<noteq> 0x0A" "c \<noteq> 0x0C" "c \<noteq> 0x0D" "c \<noteq> 0x22" "c \<noteq> 0x5C"
      "c < 0x20 \<or> is_lead c \<or> is_trail c"
    | "c \<noteq> 0x08" "c \<noteq> 0x09" "c \<noteq> 0x0A" "c \<noteq> 0x0C" "c \<noteq> 0x0D" "c \<noteq> 0x22" "c \<noteq> 0x5C"
      "\<not> (c < 0x20 \<or> is_lead c \<or> is_trail c)"
    by blast
  then show ?thesis
  proof cases
    case 1
    then show ?thesis
      using parse_backslash_simple[OF simple_escapes(1), of rest] by (simp add: quote_unit_def)
  next
    case 2
    then show ?thesis
      using parse_backslash_simple[OF simple_escapes(2), of rest] by (simp add: quote_unit_def)
  next
    case 3
    then show ?thesis
      using parse_backslash_simple[OF simple_escapes(3), of rest] by (simp add: quote_unit_def)
  next
    case 4
    then show ?thesis
      using parse_backslash_simple[OF simple_escapes(4), of rest] by (simp add: quote_unit_def)
  next
    case 5
    then show ?thesis
      using parse_backslash_simple[OF simple_escapes(5), of rest] by (simp add: quote_unit_def)
  next
    case 6
    then show ?thesis
      using parse_backslash_simple[OF simple_escapes(6), of rest] by (simp add: quote_unit_def)
  next
    case 7
    then show ?thesis
      using parse_backslash_simple[OF simple_escapes(7), of rest] by (simp add: quote_unit_def)
  next
    case 8
    then have "quote_unit c = unicode_escape c" by (simp add: quote_unit_def)
    then show ?thesis by (simp only: parse_unicode_escape)
  next
    case 9
    then have q: "quote_unit c = [c]" by (simp add: quote_unit_def)
    from 9 have n: "\<not> c < 0x20" by blast
    show ?thesis
      unfolding q by (simp only: append_Cons append_Nil parse_raw_unit[OF 9(6,7) n])
  qed
qed

lemma lead_raw: "is_lead c \<Longrightarrow> c \<noteq> 0x22 \<and> c \<noteq> 0x5C \<and> \<not> c < 0x20"
  by (auto simp: is_lead_def word_le_nat_alt word_less_nat_alt)

lemma trail_raw: "is_trail c \<Longrightarrow> c \<noteq> 0x22 \<and> c \<noteq> 0x5C \<and> \<not> c < 0x20"
  by (auto simp: is_trail_def word_le_nat_alt word_less_nat_alt)

lemma parse_quote_units:
  "parse_string_units (quote_units s @ 0x22 # rest) = Some (s, rest)"
proof (induction s rule: quote_units.induct)
  case 1
  show ?case by simp
next
  case (2 c)
  have "parse_string_units (quote_unit c @ 0x22 # rest) = cons_result c (parse_string_units (0x22 # rest))"
    by (rule parse_quote_unit)
  then show ?case by (simp add: cons_result_def)
next
  case (3 c d cs)
  show ?case
  proof (cases "is_lead c \<and> is_trail d")
    case True
    have lc: "c \<noteq> 0x22" "c \<noteq> 0x5C" "\<not> c < 0x20"
      using lead_raw[of c] True by simp_all
    have td: "d \<noteq> 0x22" "d \<noteq> 0x5C" "\<not> d < 0x20"
      using trail_raw[of d] True by simp_all
    have "parse_string_units (c # d # quote_units cs @ 0x22 # rest)
          = cons_result c (cons_result d (parse_string_units (quote_units cs @ 0x22 # rest)))"
      by (simp only: parse_raw_unit[OF lc] parse_raw_unit[OF td])
    with True 3(1) show ?thesis by (simp add: cons_result_def del: parse_string_units.simps)
  next
    case False
    then have q: "quote_units (c # d # cs) = quote_unit c @ quote_units (d # cs)"
      by (simp only: quote_units.simps if_False)
    have "parse_string_units ((quote_unit c @ quote_units (d # cs)) @ 0x22 # rest)
          = cons_result c (parse_string_units (quote_units (d # cs) @ 0x22 # rest))"
      by (simp only: append_assoc parse_quote_unit)
    with False 3(2) show ?thesis unfolding q by (simp add: cons_result_def del: quote_units.simps parse_string_units.simps)
  qed
qed

lemma skip_ws_append:
  "list_all is_ws ws \<Longrightarrow> \<not> is_ws c \<Longrightarrow> skip_ws (ws @ c # r) = c # r"
  by (induction ws) (simp_all add: skip_ws_def)

lemma skip_ws_Cons: "\<not> is_ws c \<Longrightarrow> skip_ws (c # r) = c # r"
  by (simp add: skip_ws_def)

lemma not_ws_punct:
  "\<not> is_ws 0x22" "\<not> is_ws 0x3A" "\<not> is_ws 0x2C" "\<not> is_ws 0x7D" "\<not> is_ws 0x7B"
  "\<not> is_ws 0x5B" "\<not> is_ws 0x5D"
  by (simp_all add: is_ws_def)

lemma ws_units: "is_ws 0x20" "is_ws 0x0A"
  by (simp_all add: is_ws_def)

lemma QuoteJSONString_Cons: "QuoteJSONString s = 0x22 # quote_units s @ [0x22]"
  by (simp add: QuoteJSONString_def)

lemma parse_value_string:
  assumes "list_all is_ws ws"
  shows "parse_value (Suc fuel) (ws @ QuoteJSONString s @ rest) = Some (JString s, rest)"
proof -
  have sk: "skip_ws (ws @ QuoteJSONString s @ rest) = 0x22 # (quote_units s @ 0x22 # rest)"
    using skip_ws_append[OF assms not_ws_punct(1)] by (simp add: QuoteJSONString_Cons)
  show ?thesis
    by (simp only: parse_value.simps sk list.case simp_thms if_True parse_quote_units option.case prod.case)
qed

lemma parse_member_head:
  assumes "list_all is_ws ws"
  shows "parse_members (Suc (Suc fuel)) (ws @ member_text k s @ rest) =
         (case skip_ws rest of
            [] \<Rightarrow> None
          | c # cs' \<Rightarrow>
              if c = 0x2C then cons_result (k, JString s) (parse_members (Suc fuel) cs')
              else if c = 0x7D then Some ([(k, JString s)], cs')
              else None)"
proof -
  let ?R = "0x3A # 0x20 # QuoteJSONString s @ rest"
  have sk: "skip_ws (ws @ member_text k s @ rest) = 0x22 # (quote_units k @ 0x22 # ?R)"
    using skip_ws_append[OF assms not_ws_punct(1)] by (simp add: QuoteJSONString_Cons member_text_def)
  have skR: "skip_ws ?R = 0x3A # (0x20 # QuoteJSONString s @ rest)"
    by (rule skip_ws_Cons) (rule not_ws_punct)
  have pv: "parse_value (Suc fuel) (0x20 # QuoteJSONString s @ rest) = Some (JString s, rest)"
    using parse_value_string[of "[0x20]" fuel s rest] by (simp add: ws_units)
  show ?thesis
    by (simp only: parse_members.simps sk list.case parse_quote_units option.case prod.case skR pv
        if_False if_True simp_thms)
qed

lemma parse_member_more:
  assumes "list_all is_ws ws"
  shows "parse_members (Suc (Suc fuel)) (ws @ member_text k s @ 0x2C # rest) =
         cons_result (k, JString s) (parse_members (Suc fuel) rest)"
  by (simp only: parse_member_head[OF assms] skip_ws_Cons[OF not_ws_punct(3)] list.case simp_thms if_True)

lemma parse_member_last:
  assumes "list_all is_ws ws" and "list_all is_ws ws'"
  shows "parse_members (Suc (Suc fuel)) (ws @ member_text k s @ ws' @ 0x7D # rest) =
         Some ([(k, JString s)], rest)"
proof -
  have "(0x7D::code_unit) \<noteq> 0x2C" by simp
  then show ?thesis
    by (simp only: parse_member_head[OF assms(1)] skip_ws_append[OF assms(2) not_ws_punct(4)]
        list.case simp_thms if_True if_False)
qed

lemma serialize_video:
  assumes "g \<noteq> []"
  shows "SerializeJSONProperty g ind (video_json v) =
         0x7B # 0x0A # (ind @ g) @
           member_text (js ''title'') (title v) @ 0x2C # (0x0A # ind @ g) @
           member_text (js ''url'') (url v) @ 0x2C # (0x0A # ind @ g) @
           member_text (js ''video_id'') (video_id v) @ 0x2C # (0x0A # ind @ g) @
           member_text (js ''published_at'') (published_at v) @ (0x0A # ind) @ 0x7D # []"
proof -
  have sep: "js '','' = [0x2C]" "js ''{'' = [0x7B]" "js ''}'' = [0x7D]" "js '':'' = [0x3A]" "js '' '' = [0x20]"
    by (simp_all add: js_def)
  show ?thesis
    using assms
    by (simp add: video_json_def Let_def sep member_text_def)
qed

lemma video_keys_distinct:
  "foldl (\<lambda>obj (k, v). define_property obj k v) []
     [(js ''title'', a), (js ''url'', b), (js ''video_id'', c), (js ''published_at'', d)]
   = [(js ''title'', a), (js ''url'', b), (js ''video_id'', c), (js ''published_at'', d)]"
  by (simp add: js_def)

lemma parse_video_members:
  assumes "list_all is_ws sep" and "list_all is_ws ws'"
  shows "parse_members (Suc (Suc (Suc (Suc (Suc fuel)))))
           (member_text (js ''title'') (title v) @ 0x2C # sep @
            member_text (js ''url'') (url v) @ 0x2C # sep @
            member_text (js ''video_id'') (video_id v) @ 0x2C # sep @
            member_text (js ''published_at'') (published_at v) @ ws' @ 0x7D # rest) =
         Some ([(js ''title'', JString (title v)), (js ''url'', JString (url v)),
                (js ''video_id'', JString (video_id v)),
                (js ''published_at'', JString (published_at v))], rest)"
proof -
  have e: "list_all is_ws ([]::jsstring)" by simp
  show ?thesis
    using parse_member_more[OF e, of "Suc (Suc (Suc fuel))" "js ''title''"]
      parse_member_more[OF assms(1), of "Suc (Suc fuel)" "js ''url''"]
      parse_member_more[OF assms(1), of "Suc fuel" "js ''video_id''"]
      parse_member_last[OF assms(1) assms(2), of fuel "js ''published_at''"]
    by (simp add: cons_result_def del: parse_members.simps)
qed

lemma parse_value_video:
  assumes "list_all is_ws ws" and "list_all is_ws ind" and "list_all is_ws g" and "g \<noteq> []"
  shows "parse_value (Suc (Suc (Suc (Suc (Suc (Suc fuel))))))
           (ws @ SerializeJSONProperty g ind (video_json v) @ rest) = Some (video_json v, rest)"
proof -
  let ?sep = "0x0A # ind @ g"
  let ?ms = "member_text (js ''title'') (title v) @ 0x2C # ?sep @
            member_text (js ''url'') (url v) @ 0x2C # ?sep @
            member_text (js ''video_id'') (video_id v) @ 0x2C # ?sep @
            member_text (js ''published_at'') (published_at v) @ (0x0A # ind) @ 0x7D # rest"
  have wsep: "list_all is_ws ?sep" and wind: "list_all is_ws (0x0A # ind)"
    using assms(2,3) by (simp_all add: ws_units)
  have shape: "ws @ SerializeJSONProperty g ind (video_json v) @ rest = ws @ 0x7B # (?sep @ ?ms)"
    by (simp add: serialize_video[OF assms(4)])
  have sk1: "skip_ws (ws @ 0x7B # (?sep @ ?ms)) = 0x7B # (?sep @ ?ms)"
    by (rule skip_ws_append[OF assms(1) not_ws_punct(5)])
  have ms_head: "?ms = 0x22 # tl ?ms"
    by (simp add: member_text_def QuoteJSONString_Cons)
  have sk2: "skip_ws (?sep @ ?ms) = 0x22 # tl ?ms"
    using skip_ws_append[OF wsep not_ws_punct(1), of "tl ?ms"] ms_head by simp
  have pm: "parse_members (Suc (Suc (Suc (Suc (Suc fuel))))) (0x22 # tl ?ms) =
         Some ([(js ''title'', JString (title v)), (js ''url'', JString (url v)),
                (js ''video_id'', JString (video_id v)),
                (js ''published_at'', JString (published_at v))], rest)"
    using parse_video_members[OF wsep wind, of fuel v rest] ms_head by simp
  have ne: "(0x7B::code_unit) \<noteq> 0x22" "(0x7B::code_unit) \<noteq> 0x5B" "(0x22::code_unit) \<noteq> 0x7D"
    by simp_all
  show ?thesis
    unfolding shape
    by (simp only: parse_value.simps sk1 list.case ne if_False simp_thms if_True sk2 pm option.case
        prod.case video_keys_distinct video_json_def)
qed

lemma parse_elements_videos:
  assumes "list_all is_ws g" and "g \<noteq> []" and "list_all is_ws ind"
  shows "list_all is_ws ws \<Longrightarrow>
         parse_elements (Suc (Suc (Suc (Suc (Suc (Suc (Suc (length vs + fuel))))))))
           (ws @ join (0x2C # 0x0A # ind) (map (\<lambda>v. SerializeJSONProperty g ind (video_json v)) (v # vs))
               @ 0x0A # 0x5D # rest)
         = Some (map video_json (v # vs), rest)"
proof (induction vs arbitrary: v ws)
  case Nil
  have pv: "parse_value (Suc (Suc (Suc (Suc (Suc (Suc fuel))))))
              (ws @ SerializeJSONProperty g ind (video_json v) @ 0x0A # 0x5D # rest)
            = Some (video_json v, 0x0A # 0x5D # rest)"
    by (rule parse_value_video[OF Nil assms(3) assms(1) assms(2)])
  have sk: "skip_ws (0x0A # 0x5D # rest) = 0x5D # rest"
    using skip_ws_append[of "[0x0A]" "0x5D" rest] by (simp add: ws_units not_ws_punct)
  have ne: "(0x5D::code_unit) \<noteq> 0x2C" by simp
  have "parse_elements (Suc (Suc (Suc (Suc (Suc (Suc (Suc fuel)))))))
          (ws @ SerializeJSONProperty g ind (video_json v) @ 0x0A # 0x5D # rest)
        = Some ([video_json v], rest)"
    by (subst parse_elements.simps(2))
      (simp only: pv option.case prod.case sk list.case ne if_False simp_thms if_True)
  then show ?case by simp
next
  case (Cons w vs)
  let ?ser = "\<lambda>v. SerializeJSONProperty g ind (video_json v)"
  let ?tail = "join (0x2C # 0x0A # ind) (map ?ser (w # vs)) @ 0x0A # 0x5D # rest"
  have shape: "ws @ join (0x2C # 0x0A # ind) (map ?ser (v # w # vs)) @ 0x0A # 0x5D # rest
        = ws @ ?ser v @ 0x2C # ((0x0A # ind) @ ?tail)"
    by simp
  have pv: "parse_value (Suc (Suc (Suc (Suc (Suc (Suc (Suc (length vs + fuel))))))))
              (ws @ ?ser v @ 0x2C # ((0x0A # ind) @ ?tail))
            = Some (video_json v, 0x2C # ((0x0A # ind) @ ?tail))"
    by (rule parse_value_video[OF Cons.prems assms(3) assms(1) assms(2)])
  have sk: "skip_ws (0x2C # ((0x0A # ind) @ ?tail)) = 0x2C # ((0x0A # ind) @ ?tail)"
    by (rule skip_ws_Cons[OF not_ws_punct(3)])
  have wsi: "list_all is_ws (0x0A # ind)"
    using assms(3) by (simp add: ws_units)
  have ih: "parse_elements (Suc (Suc (Suc (Suc (Suc (Suc (Suc (length vs + fuel))))))))
              ((0x0A # ind) @ ?tail) = Some (map video_json (w # vs), rest)"
    by (rule Cons.IH[OF wsi])
  have fuel_eq: "Suc (Suc (Suc (Suc (Suc (Suc (Suc (length (w # vs) + fuel)))))))
      = Suc (Suc (Suc (Suc (Suc (Suc (Suc (Suc (length vs + fuel))))))))"
    by simp
  have "parse_elements (Suc (Suc (Suc (Suc (Suc (Suc (Suc (Suc (length vs + fuel)))))))))
          (ws @ ?ser v @ 0x2C # ((0x0A # ind) @ ?tail))
        = cons_result (video_json v)
            (parse_elements (Suc (Suc (Suc (Suc (Suc (Suc (Suc (length vs + fuel))))))))
               ((0x0A # ind) @ ?tail))"
    by (subst parse_elements.simps(2))
      (simp only: pv option.case prod.case sk list.case simp_thms if_True)
  also have "\<dots> = Some (video_json v # map video_json (w # vs), rest)"
    by (simp only: ih cons_result_def option.case prod.case)
  finally show ?case
    unfolding shape fuel_eq by simp
qed

lemma length_join: "length (join sep xs) \<ge> length (concat xs)"
  by (induction sep xs rule: join.induct) simp_all

lemma length_concat_nonempty: "\<forall>x\<in>set xs. x \<noteq> [] \<Longrightarrow> length xs \<le> length (concat xs)"
proof (induction xs)
  case Nil
  show ?case by simp
next
  case (Cons x xs)
  then have "x \<noteq> []" and "length xs \<le> length (concat xs)" by simp_all
  then have "1 \<le> length x" by (cases x) simp_all
  with \<open>length xs \<le> length (concat xs)\<close> show ?case by simp
qed

lemma serialize_video_nonempty: "g \<noteq> [] \<Longrightarrow> SerializeJSONProperty g ind (video_json v) \<noteq> []"
  by (simp add: serialize_video)

lemma JSON_stringify_Nil: "JSON_stringify [] = js ''[]''"
  by (simp add: JSON_stringify_def)

lemma JSON_stringify_Cons:
  "JSON_stringify (v # vs) =
     0x5B # (0x0A # replicate 4 0x20) @
       join (0x2C # 0x0A # replicate 4 0x20)
         (map (\<lambda>v. SerializeJSONProperty (replicate 4 0x20) (replicate 4 0x20) (video_json v)) (v # vs))
       @ 0x0A # 0x5D # []"
proof -
  have lit: "js ''['' = [0x5B]" "js '']'' = [0x5D]" "js '','' = [0x2C]" by (simp_all add: js_def)
  have g: "replicate 4 (0x20::code_unit) \<noteq> []" by simp
  show ?thesis
    unfolding JSON_stringify_def
    by (simp add: Let_def lit g comp_def del: replicate.simps join.simps SerializeJSONProperty.simps(5))
qed

lemma join_Cons_head: "join sep ((c # x) # xs) = c # join sep (x # xs)"
  by (cases xs) simp_all

lemma video_of_json_video_json: "video_of_json (video_json v) = Some v"
  by (simp add: video_of_json_def video_json_def js_def)

lemma videos_of_json_videos: "videos_of_json (JArray (map video_json videos)) = Some videos"
  by (induction videos) (simp_all add: video_of_json_video_json)

lemma parse_value_array:
  assumes "skip_ws cs = d # ds" and "d \<noteq> 0x5D"
  shows "parse_value (Suc fuel) (0x5B # cs) =
         (case parse_elements fuel (d # ds) of
            None \<Rightarrow> None
          | Some (elems, rest) \<Rightarrow> Some (JArray elems, rest))"
proof -
  have ne: "(0x5B::code_unit) \<noteq> 0x22" by simp
  show ?thesis
    by (subst parse_value.simps(2))
      (simp only: skip_ws_Cons[OF not_ws_punct(6)] list.case ne if_False simp_thms if_True assms)
qed

lemma JSON_parse_stringify:
  "JSON_parse (JSON_stringify videos) = Some (JArray (map video_json videos))"
proof (cases videos)
  case Nil
  have "JSON_parse (js ''[]'') = Some (JArray [])"
    by (simp add: JSON_parse_def js_def skip_ws_def is_ws_def)
  with Nil show ?thesis by (simp add: JSON_stringify_Nil)
next
  case (Cons v vs)
  let ?g = "replicate 4 (0x20::code_unit)"
  let ?J = "join (0x2C # 0x0A # ?g) (map (\<lambda>v. SerializeJSONProperty ?g ?g (video_json v)) (v # vs))"
  let ?text = "0x5B # (0x0A # ?g) @ ?J @ 0x0A # 0x5D # []"
  have wg: "list_all is_ws ?g" and g: "?g \<noteq> []" by (simp_all add: list_all_iff ws_units)
  have wsg: "list_all is_ws (0x0A # ?g)" by (simp add: list_all_iff ws_units)
  have "\<forall>x\<in>set (map (\<lambda>v. SerializeJSONProperty ?g ?g (video_json v)) (v # vs)). x \<noteq> []"
    using serialize_video_nonempty[OF g] by auto
  then have "length (v # vs) \<le> length ?J"
    using length_concat_nonempty[of "map (\<lambda>v. SerializeJSONProperty ?g ?g (video_json v)) (v # vs)"]
      length_join[of "map (\<lambda>v. SerializeJSONProperty ?g ?g (video_json v)) (v # vs)" "0x2C # 0x0A # ?g"]
    by simp
  then have "length vs + 8 \<le> length ?text" by simp
  then obtain fuel where "length ?text = length vs + 8 + fuel"
    using le_Suc_ex by blast
  then have len: "length ?text = Suc (Suc (Suc (Suc (Suc (Suc (Suc (Suc (length vs + fuel))))))))"
    by simp
  obtain x where sv: "SerializeJSONProperty ?g ?g (video_json v) = 0x7B # x"
    using serialize_video[OF g, of ?g v] by blast
  define t where "t = join (0x2C # 0x0A # ?g) (x # map (\<lambda>v. SerializeJSONProperty ?g ?g (video_json v)) vs)"
  have J: "?J = 0x7B # t"
    unfolding t_def by (simp only: list.map sv join_Cons_head)
  have sk1: "skip_ws ?text = ?text"
    by (rule skip_ws_Cons[OF not_ws_punct(6)])
  have sk2: "skip_ws ((0x0A # ?g) @ ?J @ 0x0A # 0x5D # []) = 0x7B # (t @ 0x0A # 0x5D # [])"
    unfolding J append_Cons[of "0x7B" t] by (rule skip_ws_append[OF wsg not_ws_punct(5)])
  have fold_back: "0x7B # (t @ 0x0A # 0x5D # []) = [] @ ?J @ 0x0A # 0x5D # []"
    unfolding J by simp
  have pe: "parse_elements (Suc (Suc (Suc (Suc (Suc (Suc (Suc (length vs + fuel))))))))
              ([] @ ?J @ 0x0A # 0x5D # []) = Some (map video_json (v # vs), [])"
    by (rule parse_elements_videos[OF wg g wg]) simp
  have "parse_value (length ?text) ?text =
          (case parse_elements (Suc (Suc (Suc (Suc (Suc (Suc (Suc (length vs + fuel))))))))
                  (0x7B # (t @ 0x0A # 0x5D # [])) of
             None \<Rightarrow> None
           | Some (elems, rest) \<Rightarrow> Some (JArray elems, rest))"
    unfolding len by (rule parse_value_array[OF sk2]) simp
  also have "\<dots> = Some (JArray (map video_json (v # vs)), [])"
    unfolding fold_back by (simp only: pe option.case prod.case)
  finally have pv: "parse_value (length ?text) ?text = Some (JArray (map video_json (v # vs)), [])" .
  have "JSON_parse ?text = Some (JArray (map video_json (v # vs)))"
    unfolding JSON_parse_def by (simp only: pv option.case prod.case) (simp add: skip_ws_def)
  then show ?thesis
    unfolding Cons JSON_stringify_Cons .
qed

text \<open>
  Claim C6. The text exported for the format \<open>json\<close> parses, as JSON, to the array of the
  records' objects, one object per record in the order of the input, each with the four
  properties of the record and their values; read as records, it is the input.
\<close>

theorem export_json_roundtrip:
  "JSON_parse (export_content csv_stringify (js ''json'') videos) = Some (JArray (map video_json videos)) \<and>
   Option.bind (JSON_parse (export_content csv_stringify (js ''json'') videos)) videos_of_json = Some videos"
proof -
  have "js ''json'' \<noteq> js ''csv''" by (simp add: js_def)
  then have "export_content csv_stringify (js ''json'') videos = JSON_stringify videos"
    by (simp add: export_content_def)
  then show ?thesis
    by (simp only: JSON_parse_stringify videos_of_json_videos Option.bind.simps simp_thms)
qed

lemma split_on_no_sep: "sep \<notin> set x \<Longrightarrow> split_on sep x = [x]"
  by (induction x) (auto split: list.splits)

lemma split_on_append_sep:
  "sep \<notin> set x \<Longrightarrow> split_on sep (x @ sep # rest) = x # split_on sep rest"
  by (induction x) (auto split: list.splits)

lemma split_on_join:
  "ls \<noteq> [] \<Longrightarrow> list_all (\<lambda>l. sep \<notin> set l) ls \<Longrightarrow> split_on sep (join [sep] ls) = ls"
proof (induction "[sep]" ls rule: join.induct)
  case 1
  then show ?case by simp
next
  case (2 x)
  then show ?case by (simp add: split_on_no_sep)
next
  case (3 x y ys)
  then show ?case by (simp add: split_on_append_sep del: split_on.simps)
qed

text \<open>
  Claim C7. For every format value other than \<open>csv\<close> and \<open>json\<close> the exported content is
  that of the format \<open>txt\<close>: the texts \<open><title> - <url>\<close> of the records, in order, joined
  by line feeds. The export is a value for every format, none is refused. When there are
  records and no title or URL holds a line feed, the lines of the content are exactly
  these texts, one per record.
\<close>

theorem export_unrecognized_format:
  assumes "outputFormat \<noteq> js ''csv''" and "outputFormat \<noteq> js ''json''"
  shows "export_content csv_stringify outputFormat videos
           = export_content csv_stringify (js ''txt'') videos \<and>
         export_content csv_stringify outputFormat videos
           = join [0x0A] (map (\<lambda>v. title v @ js '' - '' @ url v) videos) \<and>
         (videos \<noteq> [] \<and> list_all (\<lambda>v. 0x0A \<notin> set (title v) \<and> 0x0A \<notin> set (url v)) videos \<longrightarrow>
            split_on 0x0A (export_content csv_stringify outputFormat videos)
              = map (\<lambda>v. title v @ js '' - '' @ url v) videos)"
proof -
  have t: "js ''txt'' \<noteq> js ''csv''" "js ''txt'' \<noteq> js ''json''" by (simp_all add: js_def)
  have e: "export_content csv_stringify outputFormat videos
           = join [0x0A] (map (\<lambda>v. title v @ js '' - '' @ url v) videos)"
    using assms by (simp add: export_content_def)
  have e': "export_content csv_stringify (js ''txt'') videos
           = join [0x0A] (map (\<lambda>v. title v @ js '' - '' @ url v) videos)"
    using t by (simp add: export_content_def)
  have d: "(0x0A::code_unit) \<notin> set (js '' - '')" by (simp add: js_def)
  have "split_on 0x0A (join [0x0A] (map (\<lambda>v. title v @ js '' - '' @ url v) videos))
          = map (\<lambda>v. title v @ js '' - '' @ url v) videos"
    if "videos \<noteq> []" and "list_all (\<lambda>v. 0x0A \<notin> set (title v) \<and> 0x0A \<notin> set (url v)) videos"
  proof (rule split_on_join)
    show "map (\<lambda>v. title v @ js '' - '' @ url v) videos \<noteq> []" using that(1) by simp
    show "list_all (\<lambda>l. 0x0A \<notin> set l) (map (\<lambda>v. title v @ js '' - '' @ url v) videos)"
      using that(2) d by (simp add: list_all_iff)
  qed
  with e e' show ?thesis by simp
qed

theorem export_unrecognized_format_witness:
  "js ''xml'' \<noteq> js ''csv'' \<and> js ''xml'' \<noteq> js ''json'' \<and>
   export_content (\<lambda>vs. []) (js ''xml'')
       [listed_record (js ''a1'') (js ''A''), listed_record (js ''b2'') (js ''B'')]
     = export_content (\<lambda>vs. []) (js ''txt'')
         [listed_record (js ''a1'') (js ''A''), listed_record (js ''b2'') (js ''B'')] \<and>
   split_on 0x0A
     (export_content (\<lambda>vs. []) (js ''xml'')
        [listed_record (js ''a1'') (js ''A''), listed_record (js ''b2'') (js ''B'')])
     = [js ''A - https://www.youtube.com/watch?v=a1'', js ''B - https://www.youtube.com/watch?v=b2'']"
proof -
  let ?vs = "[listed_record (js ''a1'') (js ''A''), listed_record (js ''b2'') (js ''B'')]"
  have h1: "js ''xml'' \<noteq> js ''csv''" and h2: "js ''xml'' \<noteq> js ''json''" by (simp_all add: js_def)
  have h3: "?vs \<noteq> [] \<and> list_all (\<lambda>v. 0x0A \<notin> set (title v) \<and> 0x0A \<notin> set (url v)) ?vs"
    by (simp add: listed_record_def js_def)
  have lines: "map (\<lambda>v. title v @ js '' - '' @ url v) ?vs
      = [js ''A - https://www.youtube.com/watch?v=a1'', js ''B - https://www.youtube.com/watch?v=b2'']"
    by (simp add: listed_record_def js_def)
  show ?thesis
    using export_unrecognized_format[OF h1 h2, of "\<lambda>vs. []" ?vs] h1 h2 h3
    unfolding lines by blast
qed

section \<open>Properties of the tool server\<close>

text \<open>
  Claim C9, at the input on which the code departs from it. A call of
  \<open>get_playlist_videos\<close> that carries no \<open>arguments\<close> object ends in a fault, the
  \<open>TypeError\<close> of reading \<open>playlist_url\<close> of \<open>undefined\<close>, although the tool name is the
  known one and the call is one with a missing playlist URL.
\<close>

theorem call_tool_without_arguments:
  "call_tool api \<lparr>name = js ''get_playlist_videos'', arguments = None\<rparr> = Some (Inl TypeError)"
  by (simp add: call_tool_def)

text \<open>
  With an \<open>arguments\<close> object the handler is as the claim says: a call of
  \<open>get_playlist_videos\<close> that returns, returns a text; any other tool name is a fault.
\<close>

lemma call_tool_with_arguments:
  assumes "name params = js ''get_playlist_videos''" and "arguments params = Some args"
    and "call_tool api params = Some outcome"
  shows "\<exists>text. outcome = Inr (TextContent text)"
  using assms
  by (auto simp: call_tool_def split: option.splits sum.splits prod.splits)

lemma call_tool_unknown_name:
  assumes "name params \<noteq> js ''get_playlist_videos''"
  shows "call_tool api params = Some (Inl (Error (js ''Tool not found: '' @ name params)))"
  using assms by (simp add: call_tool_def)

lemma call_tool_missing_url:
  "call_tool api \<lparr>name = js ''get_playlist_videos'', arguments = Some \<lparr>playlist_url = None\<rparr>\<rparr>
   = Some (Inr (TextContent (js ''Error: playlist_url is required'')))"
  by (simp add: call_tool_def truthy_def)

end
